theory Spec2Isabelle
  imports Main
begin

section \<open>Names, packets and Python values\<close>

text \<open>
  A Python \<open>bytes\<close> or \<open>str\<close> value is a \<open>string\<close>; a \<open>datetime\<close> is a point on an integer
  time line (only its order and the addition of a \<open>timedelta\<close> are used); Python's unbounded
  \<open>int\<close> is \<open>int\<close>.
\<close>

type_synonym bytes = string
type_synonym datetime = int

text \<open>The exceptions the modelled code can raise.\<close>

datatype error = ValueError | TypeError | IndexError | AttributeError | UnicodeDecodeError

text \<open>
  Modelled from the spec: the class \<open>Name\<close> of \<open>PiCN.Packets\<close> is not among the sources.
  A name is the ordered sequence of its components; equality is componentwise; the length
  is the number of components.
\<close>

type_synonym name = "bytes list"

text \<open>
  Modelled from the spec: \<open>Name.is_prefix_of\<close>. \<open>A\<close> is a prefix of \<open>B\<close> iff
  \<open>|A| \<le> |B|\<close> and \<open>A[i] = B[i]\<close> for all \<open>i < |A|\<close>.
\<close>

definition is_prefix_of :: "name \<Rightarrow> name \<Rightarrow> bool" where
  "is_prefix_of a b \<longleftrightarrow> length a \<le> length b \<and> take (length a) b = a"

section \<open>The RIB tree\<close>

text \<open>
  \<open>_RIBTreeNode\<close>. The fields in the order of \<open>__init__\<close>: \<open>_collapse_shortest\<close>,
  \<open>_parent\<close>, \<open>_children\<close>, \<open>_nc\<close>, \<open>_distance_vector\<close>.

  \<^item> \<open>_parent\<close> is a back reference; the code only ever tests it against \<open>None\<close> and
    follows it to delete the node from its parent's \<open>_children\<close>. The tree keeps whether
    it is set (\<open>has_parent\<close>); the deletion is done where the child sits, in the
    parent's list.
  \<^item> \<open>_children\<close> is a dict written only by \<open>_add_child\<close>, under the key
    \<open>child._nc\<close>: it is the list of the children in insertion order, each found under
    its own \<open>nc\<close>.
  \<^item> \<open>_distance_vector\<close> is a dict \<open>fid \<mapsto> (distance, timeout)\<close>, in insertion order
    (the order decides which of several minima \<open>min\<close> returns and the order of the
    collapsed list).
\<close>

type_synonym dv_value = "int \<times> datetime option"
type_synonym distance_vector = "(int \<times> dv_value) list"

datatype rib_node =
  RIBTreeNode (collapse_shortest: bool) (has_parent: bool) (children: "rib_node list")
    (nc: "bytes option") (distance_vector: distance_vector)

text \<open>\<open>_RIBTreeNode(nc, collapse_reduce_to_shortest)\<close>: the constructor.\<close>

definition new_node :: "bytes option \<Rightarrow> bool \<Rightarrow> rib_node" where
  "new_node c sh = RIBTreeNode sh False [] c []"

subsection \<open>Dict operations (insertion ordered)\<close>

text \<open>\<open>d[k] = v\<close>: an existing key keeps its position, a new key goes to the end.\<close>

fun dict_set :: "('k \<times> 'v) list \<Rightarrow> 'k \<Rightarrow> 'v \<Rightarrow> ('k \<times> 'v) list" where
  "dict_set [] k v = [(k, v)]"
| "dict_set ((k', v') # d) k v = (if k' = k then (k, v) # d else (k', v') # dict_set d k v)"

text \<open>\<open>_children[key]\<close>, \<open>key in _children.keys()\<close>: the child stored under a key.\<close>

fun child_get :: "rib_node list \<Rightarrow> bytes option \<Rightarrow> rib_node option" where
  "child_get [] k = None"
| "child_get (ch # chs) k = (if nc ch = k then Some ch else child_get chs k)"

text \<open>\<open>_children[child._nc] = child\<close>.\<close>

fun child_set :: "rib_node list \<Rightarrow> rib_node \<Rightarrow> rib_node list" where
  "child_set [] child = [child]"
| "child_set (ch # chs) child = (if nc ch = nc child then child # chs else ch # child_set chs child)"

text \<open>
  A child object is shared between the local variable \<open>node\<close> of \<open>insert\<close> and its
  parent's dict: what \<open>insert\<close> does to it below is seen through the parent. \<open>put_child\<close>
  writes the child's new state back into the parent's list, at the child's key.
\<close>

fun put_child :: "rib_node \<Rightarrow> rib_node \<Rightarrow> rib_node" where
  "put_child (RIBTreeNode sh p chs c dv) child = RIBTreeNode sh p (child_set chs child) c dv"

subsection \<open>\<open>_add_child\<close> and \<open>insert\<close>\<close>

text \<open>
  \<open>_add_child(self, child)\<close> raises \<open>ValueError\<close> when the child already has a parent;
  otherwise it stores the child under its \<open>nc\<close> and sets the child's \<open>_parent\<close>. Both
  objects change: the result is the pair (self, child).
\<close>

fun add_child :: "rib_node \<Rightarrow> rib_node \<Rightarrow> error + (rib_node \<times> rib_node)" where
  "add_child self (RIBTreeNode sh p chs c dv) =
     (if p then Inl ValueError
      else let child = RIBTreeNode sh True chs c dv in Inr (put_child self child, child))"

text \<open>\<open>node._distance_vector[fid] = distance, timeout\<close>.\<close>

fun set_distance :: "rib_node \<Rightarrow> int \<Rightarrow> dv_value \<Rightarrow> rib_node" where
  "set_distance (RIBTreeNode sh p chs c dv) fid v = RIBTreeNode sh p chs c (dict_set dv fid v)"

text \<open>
  The second loop of \<open>insert\<close> and the final assignment, from the node the first loop
  stopped at: one new node per remaining component, each created with the root's
  \<open>_collapse_shortest\<close> (the argument \<open>sh\<close>). The result is the raised exception, if any,
  and the state of \<open>node\<close> after the call.
\<close>

fun insert_create :: "bool \<Rightarrow> rib_node \<Rightarrow> bytes list \<Rightarrow> int \<Rightarrow> dv_value \<Rightarrow> error option \<times> rib_node" where
  "insert_create sh node [] fid v = (None, set_distance node fid v)"
| "insert_create sh node (c # comps) fid v =
     (case add_child node (new_node (Some c) sh) of
        Inl e \<Rightarrow> (Some e, node)
      | Inr (node', child) \<Rightarrow>
          (case insert_create sh child comps fid v of
             (e, child') \<Rightarrow> (e, put_child node' child')))"

text \<open>The first loop of \<open>insert\<close>: descend while the next component is a child.\<close>

fun insert_descend :: "bool \<Rightarrow> rib_node \<Rightarrow> bytes list \<Rightarrow> int \<Rightarrow> dv_value \<Rightarrow> error option \<times> rib_node" where
  "insert_descend sh node [] fid v = insert_create sh node [] fid v"
| "insert_descend sh node (c # comps) fid v =
     (case child_get (children node) (Some c) of
        Some ch \<Rightarrow>
          (case insert_descend sh ch comps fid v of
             (e, ch') \<Rightarrow> (e, put_child node ch'))
      | None \<Rightarrow> insert_create sh node (c # comps) fid v)"

text \<open>
  \<open>_RIBTreeNode.insert(self, name, fid, distance, timeout)\<close>: \<open>ValueError\<close> on a node with
  a parent, before anything is touched.
\<close>

definition node_insert ::
  "rib_node \<Rightarrow> name \<Rightarrow> int \<Rightarrow> int \<Rightarrow> datetime option \<Rightarrow> error option \<times> rib_node" where
  "node_insert self name fid distance timeout =
     (if has_parent self then (Some ValueError, self)
      else insert_descend (collapse_shortest self) self name fid (distance, timeout))"

subsection \<open>\<open>collapse\<close>\<close>

type_synonym rib_entry = "bytes list \<times> int \<times> int \<times> datetime option"

text \<open>
  \<open>min(self._distance_vector.items(), key=lambda x: x[1][0])\<close>: the first item, in
  iteration order, of least distance; \<open>ValueError\<close> on an empty dict.
\<close>

fun min_by_distance :: "int \<times> dv_value \<Rightarrow> distance_vector \<Rightarrow> int \<times> dv_value" where
  "min_by_distance best [] = best"
| "min_by_distance best (x # xs) =
     (if fst (snd x) < fst (snd best) then min_by_distance x xs else min_by_distance best xs)"

fun get_best_fid :: "distance_vector \<Rightarrow> error + (int \<times> int \<times> datetime option)" where
  "get_best_fid [] = Inl ValueError"
| "get_best_fid (x # xs) = Inr (min_by_distance x xs)"

text \<open>
  \<open>a < b\<close> on two tuples \<open>(dist, timeout)\<close>, as Python compares tuples: the first position
  where the two differ decides, by \<open><\<close> on the elements there. \<open><\<close> between \<open>None\<close> and a
  \<open>datetime\<close> raises \<open>TypeError\<close>.
\<close>

fun tuple_less :: "dv_value \<Rightarrow> dv_value \<Rightarrow> error + bool" where
  "tuple_less (d1, t1) (d2, t2) =
     (if d1 \<noteq> d2 then Inr (d1 < d2)
      else if t1 = t2 then Inr False
      else (case (t1, t2) of
              (Some a, Some b) \<Rightarrow> Inr (a < b)
            | _ \<Rightarrow> Inl TypeError))"

text \<open>\<open>min\<close> of a list of tuples: an item replaces the current minimum when it is less.\<close>

fun min_from :: "dv_value \<Rightarrow> dv_value list \<Rightarrow> error + dv_value" where
  "min_from best [] = Inr best"
| "min_from best (x # xs) =
     (case tuple_less x best of
        Inl e \<Rightarrow> Inl e
      | Inr lt \<Rightarrow> if lt then min_from x xs else min_from best xs)"

fun py_min :: "dv_value list \<Rightarrow> error + dv_value" where
  "py_min [] = Inl ValueError"
| "py_min (x # xs) = min_from x xs"

text \<open>The results of the children's \<open>collapse()\<close>, appended in order; the first exception wins.\<close>

fun concat_results :: "(error + 'a list) list \<Rightarrow> error + 'a list" where
  "concat_results [] = Inr []"
| "concat_results (Inl e # rs) = Inl e"
| "concat_results (Inr xs # rs) =
     (case concat_results rs of Inl e \<Rightarrow> Inl e | Inr ys \<Rightarrow> Inr (xs @ ys))"

text \<open>
  The node's own entries (the source has this block twice, once for a node without children
  and once for a node with children): the best face when \<open>_collapse_shortest\<close>, every face
  otherwise.
\<close>

definition own_entries :: "bool \<Rightarrow> bytes list \<Rightarrow> distance_vector \<Rightarrow> error + rib_entry list" where
  "own_entries sh nclist dv =
     (if sh then
        (case get_best_fid dv of
           Inl e \<Rightarrow> Inl e
         | Inr best \<Rightarrow> Inr [(nclist, best)])
      else Inr (map (\<lambda>(fid, (dist, timeout)). (nclist, fid, dist, timeout)) dv))"

text \<open>The last step of \<open>collapse\<close> on a node with children, from the candidate list.\<close>

definition reduce_entries :: "bytes list \<Rightarrow> rib_entry list \<Rightarrow> error + rib_entry list" where
  "reduce_entries nclist ch_res =
     (let subfids = remdups (map (\<lambda>c. fst (snd c)) ch_res) in
      if length subfids = 1 \<and> length ch_res > 1 then
        (let sf = hd subfids in
         case py_min (map (\<lambda>c. snd (snd c)) (filter (\<lambda>c. fst (snd c) = sf) ch_res)) of
           Inl e \<Rightarrow> Inl e
         | Inr (dist, timeout) \<Rightarrow> Inr [(nclist, sf, dist, timeout)])
      else Inr ch_res)"

fun collapse :: "rib_node \<Rightarrow> error + rib_entry list" where
  "collapse (RIBTreeNode sh p chs c dv) =
     (let nclist = (case c of Some x \<Rightarrow> [x] | None \<Rightarrow> []) in
      if chs = [] then
        (if dv \<noteq> [] then own_entries sh nclist dv else Inr [])
      else
        (case concat_results (map collapse chs) of
           Inl e \<Rightarrow> Inl e
         | Inr ch_res \<Rightarrow>
             (let ch_res1 = (case c of Some x \<Rightarrow> map (\<lambda>(n, r). (x # n, r)) ch_res | None \<Rightarrow> ch_res) in
              case (if dv \<noteq> [] then own_entries sh nclist dv else Inr []) of
                Inl e \<Rightarrow> Inl e
              | Inr own \<Rightarrow> reduce_entries nclist (ch_res1 @ own))))"

subsection \<open>\<open>ageing\<close>\<close>

text \<open>\<open>timeout is not None and timeout <= now\<close>.\<close>

fun outdated :: "datetime \<Rightarrow> int \<times> dv_value \<Rightarrow> bool" where
  "outdated now (fid, (dist, timeout)) = (case timeout of None \<Rightarrow> False | Some t \<Rightarrow> t \<le> now)"

text \<open>
  \<open>ageing(self, now)\<close>: the node after the call, and whether it has deleted itself from its
  parent's \<open>_children\<close> (then its \<open>_parent\<close> is reset). A child that has deleted itself is
  no longer in the list of its parent.
\<close>

fun ageing :: "datetime \<Rightarrow> rib_node \<Rightarrow> rib_node \<times> bool" where
  "ageing now (RIBTreeNode sh p chs c dv) =
     (let aged = map (ageing now) chs;
          chs' = map fst (filter (\<lambda>r. \<not> snd r) aged);
          dv' = filter (\<lambda>x. \<not> outdated now x) dv
      in if p \<and> dv' = [] \<and> chs' = []
         then (RIBTreeNode sh False chs' c dv', True)
         else (RIBTreeNode sh p chs' c dv', False))"

subsection \<open>\<open>TreeRoutingInformationBase\<close>\<close>

record TreeRoutingInformationBase =
  tree :: rib_node

definition new_rib :: "bool \<Rightarrow> TreeRoutingInformationBase" where
  "new_rib shortest_only = \<lparr>tree = new_node None shortest_only\<rparr>"

definition rib_insert ::
  "TreeRoutingInformationBase \<Rightarrow> name \<Rightarrow> int \<Rightarrow> int \<Rightarrow> datetime option
    \<Rightarrow> error option \<times> TreeRoutingInformationBase" where
  "rib_insert rib name fid distance timeout =
     (case node_insert (tree rib) name fid distance timeout of
        (e, t) \<Rightarrow> (e, rib\<lparr>tree := t\<rparr>))"

text \<open>\<open>ageing(self)\<close> reads the clock (\<open>datetime.utcnow()\<close>): the reading is the argument.\<close>

definition rib_ageing :: "TreeRoutingInformationBase \<Rightarrow> datetime \<Rightarrow> TreeRoutingInformationBase" where
  "rib_ageing rib now = rib\<lparr>tree := fst (ageing now (tree rib))\<rparr>"

text \<open>
  Modelled from the spec: \<open>ForwardingInformationBaseEntry\<close> is not among the sources. A FIB
  entry is \<open>(name_prefix, face_id, static)\<close>.
\<close>

record fib_entry =
  fib_name :: name
  fib_faceid :: int
  fib_static :: bool

text \<open>
  \<open>build_fib(self)\<close>, through \<open>__iter__\<close>: one non-static entry per collapsed tuple, in
  order. The call gives its result (or the exception of \<open>collapse\<close>) and the state of the
  RIB object after it; nothing in \<open>collapse\<close>, \<open>__iter__\<close> or \<open>build_fib\<close> assigns to
  a field of the RIB or of a node.
\<close>

definition build_fib ::
  "TreeRoutingInformationBase \<Rightarrow> (error + fib_entry list) \<times> TreeRoutingInformationBase" where
  "build_fib rib =
     ((case collapse (tree rib) of
         Inl e \<Rightarrow> Inl e
       | Inr collapsed \<Rightarrow>
           Inr (map (\<lambda>(name, fid, dist, timeout).
                  \<lparr>fib_name = name, fib_faceid = fid, fib_static = False\<rparr>) collapsed)),
      rib)"


section \<open>The autoconfig server layer\<close>

subsection \<open>Packets\<close>

text \<open>
  Modelled from the spec: the packet classes of \<open>PiCN.Packets\<close> are not among the sources.
  A packet is a tagged variant with kinds Interest, Content, Nack; every packet carries a
  name; a Content carries a payload (absent when the constructor is given the name only: the
  empty Content); a Nack carries a reason and, optionally, the Interest it answers (the
  attribute \<open>interest\<close>, unset by the constructor \<open>Nack(name, reason)\<close>).
\<close>

datatype NackReason =
  NO_CONTENT | NO_ROUTE | DUPLICATE | COMP_QUEUE_FULL | COMP_PARAM_UNAVAILABLE | COMP_EXCEPTION

datatype packet =
  Interest name
| Content name "bytes option"
| Nack name NackReason "packet option"

fun packet_name :: "packet \<Rightarrow> name" where
  "packet_name (Interest n) = n"
| "packet_name (Content n c) = n"
| "packet_name (Nack n r i) = n"

fun is_Interest :: "packet \<Rightarrow> bool" where
  "is_Interest (Interest n) = True"
| "is_Interest (Content n c) = False"
| "is_Interest (Nack n r i) = False"

text \<open>
  Modelled from the spec: the constructor \<open>Name(str)\<close> is not among the sources; the three
  reserved prefixes are the names with these components.
\<close>

definition AUTOCONFIG_PREFIX :: name where
  "AUTOCONFIG_PREFIX = [''autoconfig'']"

definition AUTOCONFIG_SERVICE_LIST_PREFIX :: name where
  "AUTOCONFIG_SERVICE_LIST_PREFIX = [''autoconfig'', ''services'']"

definition AUTOCONFIG_SERVICE_REGISTRATION_PREFIX :: name where
  "AUTOCONFIG_SERVICE_REGISTRATION_PREFIX = [''autoconfig'', ''service'']"

subsection \<open>The layer and its collaborators\<close>

text \<open>
  The fields of \<open>AutoconfigServerLayer\<close>. The link layer and the FIB are objects of classes
  that are not among the sources: their states are the type parameters \<open>'ll\<close> and \<open>'fib\<close>
  (\<open>None\<close> is the constructor's default). \<open>_service_registration_timeout\<close> is a
  \<open>timedelta\<close>, in the unit of the time line.
\<close>

type_synonym address = "string \<times> int"

record ('ll, 'fib) AutoconfigServerLayer =
  linklayer :: "'ll option"
  fib :: "'fib option"
  announce_addr :: string
  broadcast_addr :: string
  interest_to_app :: bool
  known_services :: "(name \<times> address \<times> datetime) list"
  service_registration_prefixes :: "name list"
  service_registration_timeout :: int

text \<open>\<open>timedelta(hours=1)\<close>, the time line counting seconds.\<close>

definition one_hour :: int where
  "one_hour = 3600"

text \<open>\<open>__init__\<close>, without the socket option it sets on the link layer.\<close>

definition new_layer ::
  "'ll option \<Rightarrow> 'fib option \<Rightarrow> string \<Rightarrow> string \<Rightarrow> name list \<Rightarrow> bool
    \<Rightarrow> ('ll, 'fib) AutoconfigServerLayer" where
  "new_layer ll f address broadcast registration_prefixes to_app =
     \<lparr>linklayer = ll, fib = f, announce_addr = address, broadcast_addr = broadcast,
      interest_to_app = to_app, known_services = [],
      service_registration_prefixes = registration_prefixes,
      service_registration_timeout = one_hour\<rparr>"

text \<open>
  What the layer calls and the sources do not define, as parameters: the methods of the link
  layer (\<open>get_port\<close>, \<open>get_or_create_fid(addr, static)\<close>, which gives a face id and may
  change the face table) and of the FIB (iteration over \<open>container\<close>,
  \<open>add_fib_entry(name, fid, static)\<close>), \<open>Name.to_string\<close>, and Python's \<open>int(str)\<close>
  (\<open>None\<close> where it raises \<open>ValueError\<close>).
\<close>

record ('ll, 'fib) collaborators =
  get_port :: "'ll \<Rightarrow> int"
  get_or_create_fid :: "'ll \<Rightarrow> address \<Rightarrow> bool \<Rightarrow> int \<times> 'll"
  fib_container :: "'fib \<Rightarrow> fib_entry list"
  add_fib_entry :: "'fib \<Rightarrow> name \<Rightarrow> int \<Rightarrow> bool \<Rightarrow> 'fib"
  to_string :: "name \<Rightarrow> string"
  py_int :: "string \<Rightarrow> int option"

subsection \<open>Python strings\<close>

definition newline :: char where
  "newline = CHR 0x0A"

text \<open>\<open>str(n)\<close> of an \<open>int\<close>, as an f-string formats it.\<close>

function str_nat :: "nat \<Rightarrow> string" where
  "str_nat n = (if n < 10 then [char_of (48 + n)] else str_nat (n div 10) @ [char_of (48 + n mod 10)])"
  by pat_completeness auto
termination
  by (relation "measure id") auto

declare str_nat.simps [simp del]

definition str_int :: "int \<Rightarrow> string" where
  "str_int i = (if i < 0 then CHR ''-'' # str_nat (nat (- i)) else str_nat (nat i))"

text \<open>
  \<open>content.encode('utf-8')\<close>: the text the handlers build is kept as its bytes (the
  components of a name are bytes already).
\<close>

definition encode_utf8 :: "string \<Rightarrow> bytes" where
  "encode_utf8 s = s"

text \<open>\<open>bytes.decode('ascii')\<close>: \<open>UnicodeDecodeError\<close> on a byte above 127.\<close>

definition decode_ascii :: "bytes \<Rightarrow> error + string" where
  "decode_ascii b = (if list_all (\<lambda>c. (of_char c :: nat) < 128) b then Inr b else Inl UnicodeDecodeError)"

text \<open>\<open>str.split(sep)\<close> with a one-character separator.\<close>

fun split_on :: "char \<Rightarrow> string \<Rightarrow> string list" where
  "split_on sep [] = [[]]"
| "split_on sep (c # cs) =
     (if c = sep then [] # split_on sep cs
      else (case split_on sep cs of
              w # ws \<Rightarrow> (c # w) # ws
            | [] \<Rightarrow> [[c]]))"

subsection \<open>The handlers\<close>

text \<open>\<open>_handle_autoconfig\<close>: \<open>AttributeError\<close> when the link layer or the FIB is \<open>None\<close>.\<close>

definition handle_autoconfig ::
  "('ll, 'fib) collaborators \<Rightarrow> ('ll, 'fib) AutoconfigServerLayer \<Rightarrow> packet \<Rightarrow> error + packet" where
  "handle_autoconfig env self interest =
     (case linklayer self of
        None \<Rightarrow> Inl AttributeError
      | Some ll \<Rightarrow>
          (let port = get_port env ll;
               content = announce_addr self @ '':'' @ str_int port @ [newline]
           in case fib self of
                None \<Rightarrow> Inl AttributeError
              | Some f \<Rightarrow>
                  (let content1 = content @
                         concat (map (\<lambda>entry. ''r:'' @ to_string env (fib_name entry) @ [newline])
                           (fib_container env f));
                       content2 = content1 @
                         concat (map (\<lambda>prefix. ''p:'' @ to_string env prefix @ [newline])
                           (service_registration_prefixes self))
                   in Inr (Content (packet_name interest) (Some (encode_utf8 content2))))))"

text \<open>The loop of \<open>_handle_service_list\<close>: the text it appends, one service after the other.\<close>

fun service_lines ::
  "(name \<Rightarrow> string) \<Rightarrow> datetime \<Rightarrow> name \<Rightarrow> (name \<times> address \<times> datetime) list \<Rightarrow> string" where
  "service_lines to_str now srvprefix [] = []"
| "service_lines to_str now srvprefix ((service, addr, timeout) # rest) =
     (if now > timeout then service_lines to_str now srvprefix rest
      else if length srvprefix = 0 \<or> is_prefix_of srvprefix service
        then to_str service @ [newline] @ service_lines to_str now srvprefix rest
        else service_lines to_str now srvprefix rest)"

text \<open>\<open>_handle_service_list\<close>; \<open>now\<close> is the reading of \<open>datetime.now()\<close>.\<close>

definition handle_service_list ::
  "('ll, 'fib) collaborators \<Rightarrow> datetime \<Rightarrow> ('ll, 'fib) AutoconfigServerLayer \<Rightarrow> packet \<Rightarrow> packet" where
  "handle_service_list env now self interest =
     (let srvprefix = drop (length AUTOCONFIG_SERVICE_LIST_PREFIX) (packet_name interest);
          content = service_lines (to_string env) now srvprefix (known_services self)
      in if length content > 0
         then Content (packet_name interest) (Some (encode_utf8 content))
         else Nack (packet_name interest) NO_CONTENT None)"

text \<open>
  Lines 114 to 116 of \<open>_handle_service_registration\<close>: the component after the prefix,
  decoded and split into host and port. \<open>IndexError\<close> when the name has no such component,
  \<open>ValueError\<close> when the split does not give two parts or the port is no number.
\<close>

definition parse_remote :: "('ll, 'fib) collaborators \<Rightarrow> name \<Rightarrow> error + address" where
  "parse_remote env n =
     (if length n \<le> length AUTOCONFIG_SERVICE_REGISTRATION_PREFIX then Inl IndexError
      else case decode_ascii (n ! length AUTOCONFIG_SERVICE_REGISTRATION_PREFIX) of
             Inl e \<Rightarrow> Inl e
           | Inr remote \<Rightarrow>
               (case split_on CHR '':'' remote of
                  [host, port] \<Rightarrow>
                    (case py_int env port of
                       None \<Rightarrow> Inl ValueError
                     | Some p \<Rightarrow> Inr (host, p))
                | _ \<Rightarrow> Inl ValueError))"

text \<open>
  The loop over \<open>_known_services\<close>: at the first entry with the service's name, either the
  address differs (\<open>None\<close>: the handler returns the DUPLICATE Nack) or the entry gets the
  new deadline and the loop ends. The list after the loop has the entries it had before.
\<close>

fun renew_known_service ::
  "(name \<times> address \<times> datetime) list \<Rightarrow> name \<Rightarrow> address \<Rightarrow> datetime
    \<Rightarrow> (name \<times> address \<times> datetime) list option" where
  "renew_known_service [] srvname srvaddr deadline = Some []"
| "renew_known_service ((service, addr, t) # rest) srvname srvaddr deadline =
     (if service = srvname then
        (if addr \<noteq> srvaddr then None else Some ((service, addr, deadline) # rest))
      else map_option (\<lambda>rest'. (service, addr, t) # rest')
             (renew_known_service rest srvname srvaddr deadline))"

text \<open>
  \<open>_handle_service_registration\<close>: the layer after the call, and the reply or the
  exception.
\<close>

definition handle_service_registration ::
  "('ll, 'fib) collaborators \<Rightarrow> datetime \<Rightarrow> ('ll, 'fib) AutoconfigServerLayer \<Rightarrow> packet
    \<Rightarrow> ('ll, 'fib) AutoconfigServerLayer \<times> (error + packet)" where
  "handle_service_registration env now self interest =
     (case parse_remote env (packet_name interest) of
        Inl e \<Rightarrow> (self, Inl e)
      | Inr srvaddr \<Rightarrow>
          (let srvname = drop (length AUTOCONFIG_SERVICE_REGISTRATION_PREFIX + 1) (packet_name interest) in
           if length (filter (\<lambda>prefix. length prefix = 0 \<or> is_prefix_of prefix srvname)
                 (service_registration_prefixes self)) = 0
           then (self, Inr (Nack (packet_name interest) NO_ROUTE (Some interest)))
           else
             (case renew_known_service (known_services self) srvname srvaddr
                     (now + service_registration_timeout self) of
                None \<Rightarrow> (self, Inr (Nack (packet_name interest) DUPLICATE (Some interest)))
              | Some known \<Rightarrow>
                  (let self1 = self\<lparr>known_services := known\<rparr> in
                   case linklayer self1 of
                     None \<Rightarrow> (self1, Inl AttributeError)
                   | Some ll \<Rightarrow>
                       (case get_or_create_fid env ll srvaddr True of
                          (srvfid, ll') \<Rightarrow>
                            (let self2 = self1\<lparr>linklayer := Some ll'\<rparr> in
                             case fib self2 of
                               None \<Rightarrow> (self2, Inl AttributeError)
                             | Some f \<Rightarrow>
                                 (self2\<lparr>fib := Some (add_fib_entry env f srvname srvfid True)\<rparr>,
                                  Inr (Content (packet_name interest) None))))))))"

subsection \<open>\<open>data_from_lower\<close>\<close>

text \<open>
  What arrives on a queue: \<open>[face id, packet]\<close>, or anything else (not a list or tuple of
  length two, or not an \<open>int\<close> and a \<open>Packet\<close>).
\<close>

datatype queue_item = FacePacket int packet | Malformed

text \<open>
  What one call of \<open>data_from_lower\<close> leaves: the layer, what it has put on the two queues
  (in order), and the exception that ended it, if any.
\<close>

record ('ll, 'fib) outcome =
  layer :: "('ll, 'fib) AutoconfigServerLayer"
  to_lower :: "queue_item list"
  to_higher :: "queue_item list"
  raised :: "error option"

text \<open>
  \<open>reply = handler(packet); to_lower.put([fid, reply])\<close>, skipped when an earlier statement
  has raised.
\<close>

definition put_reply ::
  "int \<Rightarrow> (('ll, 'fib) AutoconfigServerLayer \<Rightarrow> ('ll, 'fib) AutoconfigServerLayer \<times> (error + packet))
    \<Rightarrow> ('ll, 'fib) outcome \<Rightarrow> ('ll, 'fib) outcome" where
  "put_reply fid handler out =
     (case raised out of
        Some e \<Rightarrow> out
      | None \<Rightarrow>
          (case handler (layer out) of
             (self', Inl e) \<Rightarrow> out\<lparr>layer := self', raised := Some e\<rparr>
           | (self', Inr reply) \<Rightarrow> out\<lparr>layer := self', to_lower := to_lower out @ [FacePacket fid reply]\<rparr>))"

definition data_from_lower ::
  "('ll, 'fib) collaborators \<Rightarrow> datetime \<Rightarrow> ('ll, 'fib) AutoconfigServerLayer \<Rightarrow> queue_item
    \<Rightarrow> ('ll, 'fib) outcome" where
  "data_from_lower env now self data =
     (let out = \<lparr>layer = self, to_lower = [], to_higher = [], raised = None\<rparr> in
      case data of
        Malformed \<Rightarrow> out
      | FacePacket fid packet \<Rightarrow>
          (let out1 =
                 (if \<not> is_prefix_of AUTOCONFIG_PREFIX (packet_name packet) then
                    (if interest_to_app self then out\<lparr>to_higher := [data]\<rparr>
                     else out\<lparr>to_lower := [data]\<rparr>)
                  else out)
           in if is_Interest packet then
                (let out2 =
                       (if AUTOCONFIG_PREFIX = packet_name packet
                        then put_reply fid (\<lambda>s. (s, handle_autoconfig env s packet)) out1
                        else out1);
                     out3 =
                       (if is_prefix_of AUTOCONFIG_SERVICE_LIST_PREFIX (packet_name packet)
                        then put_reply fid (\<lambda>s. (s, Inr (handle_service_list env now s packet))) out2
                        else out2)
                 in if is_prefix_of AUTOCONFIG_SERVICE_REGISTRATION_PREFIX (packet_name packet)
                    then put_reply fid (\<lambda>s. handle_service_registration env now s packet) out3
                    else out3)
              else out1))"

text \<open>\<open>data_from_higher\<close>: everything from above goes down.\<close>

definition data_from_higher ::
  "('ll, 'fib) AutoconfigServerLayer \<Rightarrow> queue_item \<Rightarrow> ('ll, 'fib) outcome" where
  "data_from_higher self data = \<lparr>layer = self, to_lower = [data], to_higher = [], raised = None\<rparr>"

subsection \<open>Sample collaborators\<close>

text \<open>
  Modelled from the spec: a link layer that assigns each remote address a stable face id
  (\<open>get_or_create_fid\<close> reuses the face of a known address and allocates the next id for a
  new one) and a FIB that holds entries \<open>(name_prefix, face_id, static)\<close>, at most one per
  \<open>(prefix, face_id)\<close> pair. With a \<open>to_string\<close> that writes \<open>/a/b\<close> and an \<open>int()\<close>
  for strings of decimal digits, they give concrete collaborators to run the layer with.
\<close>

record sample_linklayer =
  ll_port :: int
  ll_faces :: "(address \<times> int) list"

definition sample_get_or_create_fid :: "sample_linklayer \<Rightarrow> address \<Rightarrow> bool \<Rightarrow> int \<times> sample_linklayer" where
  "sample_get_or_create_fid ll addr static =
     (case map_of (ll_faces ll) addr of
        Some fid \<Rightarrow> (fid, ll)
      | None \<Rightarrow> (int (length (ll_faces ll)), ll\<lparr>ll_faces := ll_faces ll @ [(addr, int (length (ll_faces ll)))]\<rparr>))"

definition sample_add_fib_entry :: "fib_entry list \<Rightarrow> name \<Rightarrow> int \<Rightarrow> bool \<Rightarrow> fib_entry list" where
  "sample_add_fib_entry f n fid static =
     (if list_ex (\<lambda>e. fib_name e = n \<and> fib_faceid e = fid) f then f
      else f @ [\<lparr>fib_name = n, fib_faceid = fid, fib_static = static\<rparr>])"

definition sample_to_string :: "name \<Rightarrow> string" where
  "sample_to_string n = (if n = [] then ''/'' else concat (map (\<lambda>c. CHR ''/'' # c) n))"

fun decimal_nat :: "nat \<Rightarrow> string \<Rightarrow> nat option" where
  "decimal_nat acc [] = Some acc"
| "decimal_nat acc (c # cs) =
     (if 48 \<le> (of_char c :: nat) \<and> (of_char c :: nat) \<le> 57
      then decimal_nat (10 * acc + (of_char c - 48)) cs
      else None)"

definition sample_int :: "string \<Rightarrow> int option" where
  "sample_int s = (if s = [] then None else map_option int (decimal_nat 0 s))"

definition sample_collaborators :: "(sample_linklayer, fib_entry list) collaborators" where
  "sample_collaborators =
     \<lparr>get_port = ll_port, get_or_create_fid = sample_get_or_create_fid,
      fib_container = (\<lambda>f. f), add_fib_entry = sample_add_fib_entry,
      to_string = sample_to_string, py_int = sample_int\<rparr>"

definition sample_layer :: "(sample_linklayer, fib_entry list) AutoconfigServerLayer" where
  "sample_layer =
     new_layer (Some \<lparr>ll_port = 9000, ll_faces = []\<rparr>) (Some []) ''127.0.0.1'' ''127.255.255.255''
       [[''testnetwork'', ''repos'']] False"

section \<open>Properties of the RIB: vocabulary\<close>

text \<open>
  A sequence of \<open>insert\<close> calls on a RIB, as a caller makes them one after the other; the
  first exception ends the sequence.
\<close>

type_synonym rib_route = "name \<times> int \<times> int \<times> datetime option"

fun rib_inserts ::
  "TreeRoutingInformationBase \<Rightarrow> rib_route list \<Rightarrow> error option \<times> TreeRoutingInformationBase" where
  "rib_inserts rib [] = (None, rib)"
| "rib_inserts rib ((name, fid, distance, timeout) # routes) =
     (case rib_insert rib name fid distance timeout of
        (Some e, rib') \<Rightarrow> (Some e, rib')
      | (None, rib') \<Rightarrow> rib_inserts rib' routes)"

text \<open>
  Prefix-minimality of a collapsed list: no entry's name is a strict prefix of the name of
  an entry with the same face id.
\<close>

definition strict_prefix_of :: "name \<Rightarrow> name \<Rightarrow> bool" where
  "strict_prefix_of a b \<longleftrightarrow> is_prefix_of a b \<and> a \<noteq> b"

definition prefix_minimal :: "rib_entry list \<Rightarrow> bool" where
  "prefix_minimal res \<longleftrightarrow>
     (\<forall>x \<in> set res. \<forall>y \<in> set res.
        fst (snd x) = fst (snd y) \<longrightarrow> \<not> strict_prefix_of (fst x) (fst y))"

text \<open>
  The weaker property \<open>collapse\<close> has: where a name is a strict prefix of another name with
  the same face id, some entry with a different face id has a name below the shorter one
  (the subtree of the shorter name uses more than one face).
\<close>

definition prefix_minimal_per_face :: "rib_entry list \<Rightarrow> bool" where
  "prefix_minimal_per_face res \<longleftrightarrow>
     (\<forall>x \<in> set res. \<forall>y \<in> set res.
        fst (snd x) = fst (snd y) \<and> strict_prefix_of (fst x) (fst y) \<longrightarrow>
        (\<exists>z \<in> set res. fst (snd z) \<noteq> fst (snd x) \<and> is_prefix_of (fst x) (fst z)))"

text \<open>
  The invariant of the trees the class builds: the keys of each dict are distinct, and every
  node in a \<open>_children\<close> dict has its \<open>_parent\<close> set and a name component.
\<close>

fun rib_inv :: "rib_node \<Rightarrow> bool" where
  "rib_inv (RIBTreeNode sh p chs c dv) \<longleftrightarrow>
     distinct (map fst dv) \<and> distinct (map nc chs) \<and>
     (\<forall>ch \<in> set chs. has_parent ch \<and> nc ch \<noteq> None \<and> rib_inv ch)"

text \<open>No distance-vector entry anywhere in the tree has a timeout \<open>\<le> now\<close>.\<close>

fun no_outdated :: "datetime \<Rightarrow> rib_node \<Rightarrow> bool" where
  "no_outdated now (RIBTreeNode sh p chs c dv) \<longleftrightarrow>
     (\<forall>(fid, dist, timeout) \<in> set dv. case timeout of None \<Rightarrow> True | Some t \<Rightarrow> \<not> t \<le> now) \<and>
     (\<forall>ch \<in> set chs. no_outdated now ch)"

text \<open>
  No node below the root (no node linked in some \<open>_children\<close>) has both an empty distance
  vector and no children.
\<close>

fun no_empty_leaf :: "rib_node \<Rightarrow> bool" where
  "no_empty_leaf (RIBTreeNode sh p chs c dv) \<longleftrightarrow>
     (\<forall>ch \<in> set chs. \<not> (distance_vector ch = [] \<and> children ch = []) \<and> no_empty_leaf ch)"

section \<open>Names: prefixes\<close>

lemma is_prefix_of_append: "is_prefix_of (a @ b) n \<Longrightarrow> is_prefix_of a n"
proof -
  assume "is_prefix_of (a @ b) n"
  then have l: "length a + length b \<le> length n" and t: "take (length a + length b) n = a @ b"
    by (simp_all add: is_prefix_of_def)
  have "take (length a) n = take (length a) (take (length a + length b) n)"
    by (simp add: min_def)
  also have "\<dots> = a" unfolding t by simp
  finally show ?thesis using l by (simp add: is_prefix_of_def)
qed

lemma is_prefix_of_self_append [simp]: "is_prefix_of p (p @ x)"
  by (simp add: is_prefix_of_def)

lemma is_prefix_of_Nil [simp]: "is_prefix_of [] n"
  by (simp add: is_prefix_of_def)

lemma is_prefix_of_Cons [simp]: "is_prefix_of (a # as) (b # bs) \<longleftrightarrow> a = b \<and> is_prefix_of as bs"
  by (auto simp: is_prefix_of_def)

lemma is_prefix_of_Cons_Nil [simp]: "\<not> is_prefix_of (a # as) []"
  by (simp add: is_prefix_of_def)

lemma strict_prefix_of_Cons [simp]:
  "strict_prefix_of (a # as) (b # bs) \<longleftrightarrow> a = b \<and> strict_prefix_of as bs"
  by (auto simp: strict_prefix_of_def)

lemma strict_prefix_of_same [simp]: "\<not> strict_prefix_of a a"
  by (simp add: strict_prefix_of_def)

lemma strict_prefix_of_Nil [simp]: "\<not> strict_prefix_of a []"
  by (cases a) (simp_all add: strict_prefix_of_def)

section \<open>The RIB: insertion keeps the invariant and never fails at the root\<close>

lemma dict_set_keys: "map fst (dict_set d k v) = (if k \<in> set (map fst d) then map fst d else map fst d @ [k])"
  by (induction d) force+

lemma dict_set_distinct: "distinct (map fst d) \<Longrightarrow> distinct (map fst (dict_set d k v))"
  by (simp add: dict_set_keys)

lemma child_set_keys:
  "map nc (child_set chs ch) = (if nc ch \<in> nc ` set chs then map nc chs else map nc chs @ [nc ch])"
  by (induction chs) auto

lemma child_set_subset: "set (child_set chs ch) \<subseteq> insert ch (set chs)"
  by (induction chs) auto

lemma child_get_mem: "child_get chs k = Some ch \<Longrightarrow> ch \<in> set chs \<and> nc ch = k"
  by (induction chs) (auto split: if_splits)

lemma rib_inv_put_child:
  "rib_inv node \<Longrightarrow> rib_inv ch \<Longrightarrow> has_parent ch \<Longrightarrow> nc ch \<noteq> None \<Longrightarrow> rib_inv (put_child node ch)"
  using child_set_subset [of "children node" ch]
  by (cases node) (auto simp: child_set_keys)

lemma put_child_sel [simp]:
  "nc (put_child node ch) = nc node" "has_parent (put_child node ch) = has_parent node"
  "collapse_shortest (put_child node ch) = collapse_shortest node"
  "distance_vector (put_child node ch) = distance_vector node"
  by (cases node; simp)+

lemma set_distance_sel [simp]:
  "nc (set_distance node f v) = nc node" "has_parent (set_distance node f v) = has_parent node"
  "children (set_distance node f v) = children node"
  by (cases node; simp)+

lemma rib_inv_set_distance: "rib_inv node \<Longrightarrow> rib_inv (set_distance node f v)"
  by (cases node) (simp add: dict_set_distinct)

lemma insert_create_ok:
  "rib_inv node \<Longrightarrow>
     fst (insert_create sh node comps fid v) = None \<and>
     rib_inv (snd (insert_create sh node comps fid v)) \<and>
     nc (snd (insert_create sh node comps fid v)) = nc node \<and>
     has_parent (snd (insert_create sh node comps fid v)) = has_parent node"
proof (induction comps arbitrary: node)
  case Nil
  then show ?case by (simp add: rib_inv_set_distance)
next
  case (Cons c comps)
  let ?child = "RIBTreeNode sh True [] (Some c) []"
  have "rib_inv ?child" by simp
  from Cons.IH [OF this] obtain child' where
    r: "insert_create sh ?child comps fid v = (None, child')"
    and c': "rib_inv child'" "nc child' = Some c" "has_parent child'"
    by (cases "insert_create sh ?child comps fid v") auto
  have "rib_inv (put_child node ?child)"
    using Cons.prems by (simp add: rib_inv_put_child)
  then have "rib_inv (put_child (put_child node ?child) child')"
    using c' by (simp add: rib_inv_put_child)
  then show ?case
    using r by (simp add: new_node_def Let_def)
qed

lemma insert_create_no_error: "fst (insert_create sh node comps fid v) = None"
proof (induction comps arbitrary: node)
  case Nil
  then show ?case by simp
next
  case (Cons c comps)
  then show ?case
    by (simp add: new_node_def Let_def case_prod_unfold)
qed

lemma insert_descend_no_error: "fst (insert_descend sh node comps fid v) = None"
proof (induction comps arbitrary: node)
  case Nil
  then show ?case by simp
next
  case (Cons c comps)
  show ?case
  proof (cases "child_get (children node) (Some c)")
    case None
    then show ?thesis using insert_create_no_error [of sh node "c # comps" fid v] by simp
  next
    case (Some ch)
    then show ?thesis using Cons.IH [of ch] by (simp add: case_prod_unfold)
  qed
qed

lemma insert_descend_ok:
  "rib_inv node \<Longrightarrow>
     rib_inv (snd (insert_descend sh node comps fid v)) \<and>
     nc (snd (insert_descend sh node comps fid v)) = nc node \<and>
     has_parent (snd (insert_descend sh node comps fid v)) = has_parent node"
proof (induction comps arbitrary: node)
  case Nil
  then show ?case by (simp add: rib_inv_set_distance)
next
  case (Cons c comps)
  show ?case
  proof (cases "child_get (children node) (Some c)")
    case None
    then show ?thesis
      using insert_create_ok [OF Cons.prems, of sh "c # comps" fid v] by simp
  next
    case (Some ch)
    then have m: "ch \<in> set (children node)" "nc ch = Some c"
      using child_get_mem by blast+
    with Cons.prems have ch: "rib_inv ch" "has_parent ch"
      by (cases node; auto)+
    from Cons.IH [OF ch(1)] have
      "rib_inv (snd (insert_descend sh ch comps fid v))"
      "nc (snd (insert_descend sh ch comps fid v)) = Some c"
      "has_parent (snd (insert_descend sh ch comps fid v))"
      using m ch by auto
    then have "rib_inv (put_child node (snd (insert_descend sh ch comps fid v)))"
      using Cons.prems by (simp add: rib_inv_put_child)
    then show ?thesis using Some by (simp add: case_prod_unfold)
  qed
qed


section \<open>The RIB: what \<open>ageing\<close> leaves\<close>

lemma ageing_nc [simp]: "nc (fst (ageing now n)) = nc n"
  by (cases n) (simp add: Let_def)

lemma ageing_kept_parent: "\<not> snd (ageing now n) \<Longrightarrow> has_parent (fst (ageing now n)) = has_parent n"
  by (cases n) (simp add: Let_def split: if_splits)

lemma ageing_kept_nonempty:
  "has_parent n \<Longrightarrow> \<not> snd (ageing now n) \<Longrightarrow>
     \<not> (distance_vector (fst (ageing now n)) = [] \<and> children (fst (ageing now n)) = [])"
  by (cases n) (simp add: Let_def split: if_splits)

lemma kept_set:
  "ch' \<in> set (map fst (filter (\<lambda>r. \<not> snd r) (map f chs))) \<Longrightarrow>
     \<exists>ch \<in> set chs. \<not> snd (f ch) \<and> ch' = fst (f ch)"
  by (induction chs) (auto split: if_splits)

lemma kept_all:
  assumes "\<And>ch. ch \<in> set chs \<Longrightarrow> \<not> snd (ageing now ch) \<Longrightarrow> P (fst (ageing now ch))"
  shows "\<forall>ch' \<in> set (map fst (filter (\<lambda>r. \<not> snd r) (map (ageing now) chs))). P ch'"
proof
  fix ch'
  assume "ch' \<in> set (map fst (filter (\<lambda>r. \<not> snd r) (map (ageing now) chs)))"
  from kept_set [OF this]
  obtain ch where "ch \<in> set chs" "\<not> snd (ageing now ch)" "ch' = fst (ageing now ch)"
    by blast
  then show "P ch'" using assms by simp
qed

lemma ageing_fst:
  "\<exists>p'. fst (ageing now (RIBTreeNode sh p chs c dv)) =
      RIBTreeNode sh p' (map fst (filter (\<lambda>r. \<not> snd r) (map (ageing now) chs))) c
        (filter (\<lambda>x. \<not> outdated now x) dv)"
  by (auto simp: Let_def)

lemma ageing_no_outdated: "no_outdated now (fst (ageing now n))"
proof (induction n)
  case (RIBTreeNode sh p chs c dv)
  obtain p' where e: "fst (ageing now (RIBTreeNode sh p chs c dv)) =
      RIBTreeNode sh p' (map fst (filter (\<lambda>r. \<not> snd r) (map (ageing now) chs))) c
        (filter (\<lambda>x. \<not> outdated now x) dv)"
    using ageing_fst by blast
  have A: "\<forall>ch' \<in> set (map fst (filter (\<lambda>r. \<not> snd r) (map (ageing now) chs))). no_outdated now ch'"
    using RIBTreeNode.IH by (intro kept_all) simp
  have B: "\<forall>(fid, dist, timeout) \<in> set (filter (\<lambda>x. \<not> outdated now x) dv).
      case timeout of None \<Rightarrow> True | Some t \<Rightarrow> \<not> t \<le> now"
    by (auto split: option.splits)
  show ?case
    unfolding e no_outdated.simps by (rule conjI [OF B A])
qed

lemma ageing_no_empty_leaf: "rib_inv n \<Longrightarrow> no_empty_leaf (fst (ageing now n))"
proof (induction n)
  case (RIBTreeNode sh p chs c dv)
  obtain p' where e: "fst (ageing now (RIBTreeNode sh p chs c dv)) =
      RIBTreeNode sh p' (map fst (filter (\<lambda>r. \<not> snd r) (map (ageing now) chs))) c
        (filter (\<lambda>x. \<not> outdated now x) dv)"
    using ageing_fst by blast
  have "\<not> (distance_vector (fst (ageing now ch)) = [] \<and> children (fst (ageing now ch)) = [])
        \<and> no_empty_leaf (fst (ageing now ch))"
    if "ch \<in> set chs" "\<not> snd (ageing now ch)" for ch
  proof -
    from that RIBTreeNode.prems have "has_parent ch" "rib_inv ch" by simp_all
    then show ?thesis
      using that RIBTreeNode.IH [of ch] ageing_kept_nonempty [of ch now] by simp
  qed
  then have A: "\<forall>ch' \<in> set (map fst (filter (\<lambda>r. \<not> snd r) (map (ageing now) chs))).
      \<not> (distance_vector ch' = [] \<and> children ch' = []) \<and> no_empty_leaf ch'"
    by (intro kept_all) simp
  show ?case
    unfolding e no_empty_leaf.simps by (rule A)
qed

lemma kept_keys_distinct:
  "distinct (map nc chs) \<Longrightarrow>
     distinct (map nc (map fst (filter (\<lambda>r. \<not> snd r) (map (ageing now) chs))))"
proof (induction chs)
  case Nil
  then show ?case by simp
next
  case (Cons ch chs)
  have "nc ch' \<in> nc ` set chs"
    if "ch' \<in> set (map fst (filter (\<lambda>r. \<not> snd r) (map (ageing now) chs)))" for ch'
    using kept_set [OF that] by auto
  with Cons show ?case by auto
qed

lemma ageing_rib_inv: "rib_inv n \<Longrightarrow> rib_inv (fst (ageing now n))"
proof (induction n)
  case (RIBTreeNode sh p chs c dv)
  obtain p' where e: "fst (ageing now (RIBTreeNode sh p chs c dv)) =
      RIBTreeNode sh p' (map fst (filter (\<lambda>r. \<not> snd r) (map (ageing now) chs))) c
        (filter (\<lambda>x. \<not> outdated now x) dv)"
    using ageing_fst by blast
  have "has_parent (fst (ageing now ch)) \<and> nc (fst (ageing now ch)) \<noteq> None
        \<and> rib_inv (fst (ageing now ch))"
    if "ch \<in> set chs" "\<not> snd (ageing now ch)" for ch
  proof -
    from that RIBTreeNode.prems have "has_parent ch" "nc ch \<noteq> None" "rib_inv ch" by simp_all
    then show ?thesis
      using that RIBTreeNode.IH [of ch] ageing_kept_parent [of now ch] by simp
  qed
  then have A: "\<forall>ch' \<in> set (map fst (filter (\<lambda>r. \<not> snd r) (map (ageing now) chs))).
      has_parent ch' \<and> nc ch' \<noteq> None \<and> rib_inv ch'"
    by (intro kept_all) simp
  have B: "distinct (map fst (filter (\<lambda>x. \<not> outdated now x) dv))"
    using RIBTreeNode.prems by (simp add: distinct_map_filter)
  have C: "distinct (map nc (map fst (filter (\<lambda>r. \<not> snd r) (map (ageing now) chs))))"
    using kept_keys_distinct RIBTreeNode.prems by simp
  show ?case
    unfolding e rib_inv.simps using A B C by (intro conjI)
qed

section \<open>The RIB: sequences of insertions\<close>

lemma node_insert_ok:
  "rib_inv t \<Longrightarrow> \<not> has_parent t \<Longrightarrow>
     fst (node_insert t name fid d tm) = None \<and> rib_inv (snd (node_insert t name fid d tm)) \<and>
     \<not> has_parent (snd (node_insert t name fid d tm))"
  using insert_descend_ok [of t "collapse_shortest t" name fid "(d, tm)"]
    insert_descend_no_error [of "collapse_shortest t" t name fid "(d, tm)"]
  by (simp add: node_insert_def)

lemma rib_inserts_ok:
  "rib_inv (tree rib) \<Longrightarrow> \<not> has_parent (tree rib) \<Longrightarrow>
     fst (rib_inserts rib routes) = None \<and> rib_inv (tree (snd (rib_inserts rib routes))) \<and>
     \<not> has_parent (tree (snd (rib_inserts rib routes)))"
proof (induction routes arbitrary: rib)
  case Nil
  then show ?case by simp
next
  case (Cons r routes)
  obtain name fid d tm where r: "r = (name, fid, d, tm)" by (cases r) auto
  obtain e t where n: "node_insert (tree rib) name fid d tm = (e, t)" by (cases "node_insert (tree rib) name fid d tm") auto
  with node_insert_ok [OF Cons.prems, of name fid d tm]
  have t: "e = None" "rib_inv t" "\<not> has_parent t" by auto
  have step: "rib_inserts rib (r # routes) = rib_inserts (rib\<lparr>tree := t\<rparr>) routes"
    unfolding r using n t(1) by (simp add: rib_insert_def)
  have "rib_inv (tree (rib\<lparr>tree := t\<rparr>))" "\<not> has_parent (tree (rib\<lparr>tree := t\<rparr>))"
    using t by simp_all
  from Cons.IH [OF this] show ?case
    unfolding step .
qed

lemma new_rib_inv: "rib_inv (tree (new_rib sh)) \<and> \<not> has_parent (tree (new_rib sh))"
  by (simp add: new_rib_def new_node_def)

lemma rib_ageing_ok:
  assumes "rib_inv (tree rib)" and "\<not> has_parent (tree rib)"
  shows "rib_inv (tree (rib_ageing rib now)) \<and> \<not> has_parent (tree (rib_ageing rib now))"
proof -
  obtain sh p chs c dv where t: "tree rib = RIBTreeNode sh p chs c dv" by (cases "tree rib") auto
  with assms(2) have "\<not> has_parent (fst (ageing now (tree rib)))" by (simp add: Let_def)
  with ageing_rib_inv [OF assms(1), of now] show ?thesis by (simp add: rib_ageing_def)
qed

section \<open>The RIB: a collapsed list with one face\<close>

lemma all_equal_distinct:
  assumes "distinct xs" and "\<forall>x \<in> set xs. \<forall>y \<in> set xs. x = y"
  shows "length xs \<le> 1"
proof (cases xs)
  case Nil
  then show ?thesis by simp
next
  case (Cons x ys)
  have "ys = []"
  proof (cases ys)
    case Nil
    then show ?thesis .
  next
    case (Cons y zs)
    with \<open>xs = x # ys\<close> assms(1) have "x \<noteq> y" by simp
    moreover have "x \<in> set xs" "y \<in> set xs" using Cons \<open>xs = x # ys\<close> by simp_all
    with assms(2) have "x = y" by blast
    ultimately show ?thesis by simp
  qed
  with Cons show ?thesis by simp
qed

lemma all_equal_remdups:
  assumes "xs \<noteq> []" and "\<forall>x \<in> set xs. \<forall>y \<in> set xs. x = y"
  shows "length (remdups xs) = 1"
proof -
  from assms(1) have "hd xs \<in> set xs" by simp
  with assms(2) have "set xs = {hd xs}" by blast
  then show ?thesis by (simp add: length_remdups_card_conv)
qed

lemma all_equal_map:
  assumes "\<forall>x \<in> set xs. \<forall>y \<in> set xs. f x = f y"
  shows "\<forall>x \<in> set (map f xs). \<forall>y \<in> set (map f xs). x = y"
proof (intro ballI)
  fix x y
  assume "x \<in> set (map f xs)" "y \<in> set (map f xs)"
  then obtain a b where "a \<in> set xs" "x = f a" "b \<in> set xs" "y = f b"
    by (metis (no_types) imageE list.set_map)
  with assms show "x = y" by blast
qed

lemma reduce_entries_one_face:
  assumes "reduce_entries nclist cand = Inr res"
    and "\<forall>x \<in> set res. \<forall>y \<in> set res. fst (snd x) = fst (snd y)"
  shows "length res \<le> 1"
proof (cases "length (remdups (map (\<lambda>c. fst (snd c)) cand)) = 1 \<and> length cand > 1")
  case True
  with assms(1) show ?thesis
    by (auto simp: reduce_entries_def Let_def split: sum.splits)
next
  case False
  with assms(1) have res: "res = cand" by (auto simp: reduce_entries_def Let_def)
  show ?thesis
  proof (rule ccontr)
    assume "\<not> length res \<le> 1"
    then have c: "map (\<lambda>c. fst (snd c)) cand \<noteq> []" "length cand > 1" using res by auto
    have "length (remdups (map (\<lambda>c. fst (snd c)) cand)) = 1"
      using all_equal_remdups [OF c(1) all_equal_map] assms(2) unfolding res by blast
    with c(2) False show False by simp
  qed
qed

lemma own_entries_one_face:
  assumes "own_entries sh nclist dv = Inr res" "distinct (map fst dv)"
    and "\<forall>x \<in> set res. \<forall>y \<in> set res. fst (snd x) = fst (snd y)"
  shows "length res \<le> 1"
proof (cases sh)
  case True
  with assms(1) show ?thesis by (auto simp: own_entries_def split: sum.splits)
next
  case False
  with assms(1) have res: "res = map (\<lambda>(fid, (dist, timeout)). (nclist, fid, dist, timeout)) dv"
    by (simp add: own_entries_def)
  then have m: "map (\<lambda>c. fst (snd c)) res = map fst dv" by (simp add: case_prod_unfold)
  have "length (map (\<lambda>c. fst (snd c)) res) \<le> 1"
    using all_equal_distinct [OF _ all_equal_map [OF assms(3)]] assms(2) unfolding m by blast
  then show ?thesis by simp
qed

lemma collapse_one_face:
  assumes "rib_inv t" "collapse t = Inr res"
    and "\<forall>x \<in> set res. \<forall>y \<in> set res. fst (snd x) = fst (snd y)"
  shows "length res \<le> 1"
proof (cases t)
  case (RIBTreeNode sh p chs c dv)
  then have d: "distinct (map fst dv)" using assms(1) by simp
  show ?thesis
  proof (cases "chs = []")
    case True
    show ?thesis
    proof (cases "dv = []")
      case True
      with \<open>chs = []\<close> assms(2) RIBTreeNode show ?thesis by simp
    next
      case False
      with \<open>chs = []\<close> assms(2) RIBTreeNode
      have "own_entries sh (case c of Some x \<Rightarrow> [x] | None \<Rightarrow> []) dv = Inr res" by simp
      from own_entries_one_face [OF this d assms(3)] show ?thesis .
    qed
  next
    case False
    then obtain cand where "reduce_entries (case c of Some x \<Rightarrow> [x] | None \<Rightarrow> []) cand = Inr res"
      using assms(2) RIBTreeNode by (auto simp: Let_def split: sum.splits)
    from reduce_entries_one_face [OF this assms(3)] show ?thesis .
  qed
qed

lemma one_entry_minimal: "length res \<le> 1 \<Longrightarrow> prefix_minimal res"
  by (cases res) (simp_all add: prefix_minimal_def strict_prefix_of_def)

section \<open>The RIB: strict prefixes in a collapsed list\<close>

text \<open>Prepending the node's component to every name.\<close>

lemma per_face_prepend:
  assumes "prefix_minimal_per_face res"
  shows "prefix_minimal_per_face (map (\<lambda>(n, r). (c # n, r)) res)"
  unfolding prefix_minimal_per_face_def
proof (intro ballI impI)
  fix x y
  assume x: "x \<in> set (map (\<lambda>(n, r). (c # n, r)) res)" and y: "y \<in> set (map (\<lambda>(n, r). (c # n, r)) res)"
    and h: "fst (snd x) = fst (snd y) \<and> strict_prefix_of (fst x) (fst y)"
  from x obtain x' where x': "x' \<in> set res" "x = (c # fst x', snd x')" by (auto simp: case_prod_unfold)
  from y obtain y' where y': "y' \<in> set res" "y = (c # fst y', snd y')" by (auto simp: case_prod_unfold)
  from h x' y' have "fst (snd x') = fst (snd y') \<and> strict_prefix_of (fst x') (fst y')" by simp
  with assms x'(1) y'(1) obtain z' where z': "z' \<in> set res" "fst (snd z') \<noteq> fst (snd x')"
      "is_prefix_of (fst x') (fst z')"
    unfolding prefix_minimal_per_face_def by blast
  let ?z = "(c # fst z', snd z')"
  have "?z \<in> set (map (\<lambda>(n, r). (c # n, r)) res)" using z'(1) by (force simp: case_prod_unfold)
  moreover have "fst (snd ?z) \<noteq> fst (snd x) \<and> is_prefix_of (fst x) (fst ?z)" using z' x' by simp
  ultimately show "\<exists>z \<in> set (map (\<lambda>(n, r). (c # n, r)) res).
      fst (snd z) \<noteq> fst (snd x) \<and> is_prefix_of (fst x) (fst z)" by blast
qed

lemma own_entries_names:
  "own_entries sh nclist dv = Inr own \<Longrightarrow> e \<in> set own \<Longrightarrow> fst e = nclist"
  by (auto simp: own_entries_def split: if_splits sum.splits)

lemma own_entries_prepend:
  "own_entries sh [c] dv = Inr own \<Longrightarrow>
     \<exists>own0. own_entries sh [] dv = Inr own0 \<and> own = map (\<lambda>(n, r). (c # n, r)) own0"
  by (auto simp: own_entries_def case_prod_unfold split: if_splits sum.splits)

lemma reduce_entries_cases:
  assumes "reduce_entries nclist cand = Inr res"
  shows "(\<exists>f d t. res = [(nclist, f, d, t)]) \<or>
         (res = cand \<and> \<not> (length (remdups (map (\<lambda>c. fst (snd c)) cand)) = 1 \<and> length cand > 1))"
  using assms by (auto simp: reduce_entries_def Let_def split: if_splits sum.splits)

lemma per_face_single: "prefix_minimal_per_face [e]"
  by (simp add: prefix_minimal_per_face_def)

lemma per_face_same_name:
  assumes "\<forall>e \<in> set res. fst e = n"
  shows "prefix_minimal_per_face res"
  unfolding prefix_minimal_per_face_def
proof (intro ballI impI)
  fix x y
  assume "x \<in> set res" "y \<in> set res" "fst (snd x) = fst (snd y) \<and> strict_prefix_of (fst x) (fst y)"
  with assms have "strict_prefix_of n n" by auto
  then show "\<exists>z \<in> set res. fst (snd z) \<noteq> fst (snd x) \<and> is_prefix_of (fst x) (fst z)" by simp
qed

lemma concat_results_mem:
  "concat_results rs = Inr xs \<Longrightarrow> x \<in> set xs \<longleftrightarrow> (\<exists>r. Inr r \<in> set rs \<and> x \<in> set r)"
proof (induction rs arbitrary: xs rule: concat_results.induct)
  case 1
  then show ?case by simp
next
  case (2 e rs)
  then show ?case by simp
next
  case (3 ys rs)
  then obtain zs where "concat_results rs = Inr zs" "xs = ys @ zs"
    by (auto split: sum.splits)
  with 3 show ?case by auto
qed

text \<open>Every name in a node's result starts with the node's component.\<close>

lemma collapse_names:
  assumes "collapse (RIBTreeNode sh p chs (Some c) dv) = Inr res" and "e \<in> set res"
  shows "\<exists>n. fst e = c # n"
proof (cases "chs = []")
  case True
  with assms(1) have "res = [] \<or> own_entries sh [c] dv = Inr res" by (auto split: if_splits)
  with assms(2) own_entries_names show ?thesis by fastforce
next
  case False
  with assms(1) obtain ch_res own where
    o: "(if dv \<noteq> [] then own_entries sh [c] dv else Inr []) = Inr own" and
    r: "reduce_entries [c] (map (\<lambda>(n, r). (c # n, r)) ch_res @ own) = Inr res"
    by (auto simp: Let_def split: sum.splits)
  have own: "\<forall>e \<in> set own. fst e = [c]"
    using o own_entries_names by (fastforce split: if_splits)
  have "\<forall>e \<in> set (map (\<lambda>(n, r). (c # n, r)) ch_res @ own). \<exists>n. fst e = c # n"
    using own by (auto simp: case_prod_unfold)
  with reduce_entries_cases [OF r] assms(2) show ?thesis by auto
qed


lemma two_members: "x \<in> set xs \<Longrightarrow> y \<in> set xs \<Longrightarrow> x \<noteq> y \<Longrightarrow> length xs > 1"
  by (cases xs; cases "tl xs") auto

lemma other_face:
  assumes "\<not> (length (remdups (map (\<lambda>c. fst (snd c)) cand)) = 1 \<and> length cand > 1)"
    and "length cand > 1" and "x \<in> set cand"
  shows "\<exists>z \<in> set cand. fst (snd z) \<noteq> fst (snd x)"
proof (rule ccontr)
  assume "\<not> (\<exists>z \<in> set cand. fst (snd z) \<noteq> fst (snd x))"
  then have "\<forall>a \<in> set cand. \<forall>b \<in> set cand. fst (snd a) = fst (snd b)" by metis
  from all_equal_remdups [OF _ all_equal_map [OF this]] assms(2)
  have "length (remdups (map (\<lambda>c. fst (snd c)) cand)) = 1" by fastforce
  with assms(1,2) show False by simp
qed

text \<open>
  The candidates of a node, with names relative to the node: the children's results and the
  node's own entries (under the empty name), when they are not reduced to one entry.
\<close>

lemma per_face_candidates:
  assumes kids: "\<And>x. x \<in> set ch_res \<Longrightarrow>
        \<exists>k n r. fst x = k # n \<and> x \<in> set r \<and> set r \<subseteq> set ch_res \<and> prefix_minimal_per_face r \<and>
          (\<forall>y \<in> set ch_res. (\<exists>m. fst y = k # m) \<longrightarrow> y \<in> set r)"
    and own: "\<forall>e \<in> set own0. fst e = []"
    and faces: "\<not> (length (remdups (map (\<lambda>c. fst (snd c)) (ch_res @ own0))) = 1 \<and> length (ch_res @ own0) > 1)"
  shows "prefix_minimal_per_face (ch_res @ own0)"
  unfolding prefix_minimal_per_face_def
proof (intro ballI impI)
  fix x y
  assume x: "x \<in> set (ch_res @ own0)" and y: "y \<in> set (ch_res @ own0)"
    and h: "fst (snd x) = fst (snd y) \<and> strict_prefix_of (fst x) (fst y)"
  then have "x \<noteq> y" by auto
  from two_members [OF x y this] have l: "length (ch_res @ own0) > 1" .
  from other_face [OF faces l x] obtain z0 where
    z0: "z0 \<in> set (ch_res @ own0)" "fst (snd z0) \<noteq> fst (snd x)" by blast
  show "\<exists>z \<in> set (ch_res @ own0). fst (snd z) \<noteq> fst (snd x) \<and> is_prefix_of (fst x) (fst z)"
  proof (cases "x \<in> set own0")
    case True
    with own have "fst x = []" by simp
    with z0 show ?thesis by (metis is_prefix_of_Nil)
  next
    case False
    with x have xc: "x \<in> set ch_res" by simp
    from kids [OF xc] obtain k n r where
      r: "fst x = k # n" "x \<in> set r" "set r \<subseteq> set ch_res" "prefix_minimal_per_face r"
         "\<forall>y \<in> set ch_res. (\<exists>m. fst y = k # m) \<longrightarrow> y \<in> set r"
      by blast
    from h r(1) obtain m where ym: "fst y = k # m"
      by (cases "fst y") (auto simp: strict_prefix_of_def)
    with own have "y \<notin> set own0" by auto
    with y have "y \<in> set ch_res" by simp
    with r(5) ym have "y \<in> set r" by blast
    with r(2,4) h obtain z where "z \<in> set r" "fst (snd z) \<noteq> fst (snd x)" "is_prefix_of (fst x) (fst z)"
      unfolding prefix_minimal_per_face_def by blast
    with r(3) show ?thesis by auto
  qed
qed

lemma fids_prepend:
  "map (\<lambda>c. fst (snd c)) (map (\<lambda>(n, r). (x # n, r)) cand) = map (\<lambda>c. fst (snd c)) cand"
  by (simp add: case_prod_unfold)

lemma collapse_per_face:
  "rib_inv t \<Longrightarrow> collapse t = Inr res \<Longrightarrow> prefix_minimal_per_face res"
proof (induction t arbitrary: res)
  case (RIBTreeNode sh p chs c dv)
  let ?nclist = "case c of Some x \<Rightarrow> [x] | None \<Rightarrow> []"
  show ?case
  proof (cases "chs = []")
    case True
    with RIBTreeNode.prems(2) have "res = [] \<or> own_entries sh ?nclist dv = Inr res"
      by (auto split: if_splits)
    then have "\<forall>e \<in> set res. fst e = ?nclist" using own_entries_names by fastforce
    then show ?thesis by (rule per_face_same_name)
  next
    case False
    with RIBTreeNode.prems(2) obtain ch_res own where
      cr: "concat_results (map collapse chs) = Inr ch_res" and
      o: "(if dv \<noteq> [] then own_entries sh ?nclist dv else Inr []) = Inr own" and
      r: "reduce_entries ?nclist
            ((case c of Some x \<Rightarrow> map (\<lambda>(n, r). (x # n, r)) ch_res | None \<Rightarrow> ch_res) @ own) = Inr res"
      by (auto simp: Let_def split: sum.splits)
    have inj: "inj_on nc (set chs)" and kids_inv: "\<forall>ch \<in> set chs. nc ch \<noteq> None \<and> rib_inv ch"
      using RIBTreeNode.prems(1) by (auto simp: distinct_map)
    have kids: "\<exists>k n r. fst x = k # n \<and> x \<in> set r \<and> set r \<subseteq> set ch_res \<and> prefix_minimal_per_face r \<and>
          (\<forall>y \<in> set ch_res. (\<exists>m. fst y = k # m) \<longrightarrow> y \<in> set r)"
      if "x \<in> set ch_res" for x
    proof -
      from that concat_results_mem [OF cr] obtain r1 where "Inr r1 \<in> set (map collapse chs)" "x \<in> set r1"
        by blast
      then obtain ch1 where ch1: "ch1 \<in> set chs" "collapse ch1 = Inr r1" by auto
      with kids_inv obtain k where k: "nc ch1 = Some k" by auto
      then obtain sh1 p1 chs1 dv1 where c1: "ch1 = RIBTreeNode sh1 p1 chs1 (Some k) dv1"
        by (cases ch1) auto
      from collapse_names [of sh1 p1 chs1 k dv1 r1 x] ch1(2) c1 \<open>x \<in> set r1\<close>
      obtain n where n: "fst x = k # n" by auto
      have sub: "set r1 \<subseteq> set ch_res"
        using concat_results_mem [OF cr] \<open>Inr r1 \<in> set (map collapse chs)\<close> by blast
      have pm: "prefix_minimal_per_face r1"
        using RIBTreeNode.IH [OF ch1(1) _ ch1(2)] kids_inv ch1(1) by blast
      have "y \<in> set r1" if y: "y \<in> set ch_res" "\<exists>m. fst y = k # m" for y
      proof -
        from y(1) concat_results_mem [OF cr] obtain r2 where r2: "Inr r2 \<in> set (map collapse chs)" "y \<in> set r2"
          by blast
        then obtain ch2 where ch2: "ch2 \<in> set chs" "collapse ch2 = Inr r2" by auto
        with kids_inv obtain k2 where k2: "nc ch2 = Some k2" by auto
        then obtain sh2 p2 chs2 dv2 where c2: "ch2 = RIBTreeNode sh2 p2 chs2 (Some k2) dv2"
          by (cases ch2) auto
        from collapse_names [of sh2 p2 chs2 k2 dv2 r2 y] ch2(2) c2 r2(2)
        obtain m2 where "fst y = k2 # m2" by auto
        with y(2) have "k2 = k" by auto
        with k k2 have "nc ch1 = nc ch2" by simp
        with inj ch1(1) ch2(1) have "ch1 = ch2" by (auto dest: inj_onD)
        with ch1(2) ch2(2) r2(2) show ?thesis by simp
      qed
      with n \<open>x \<in> set r1\<close> sub pm show ?thesis by blast
    qed
    from reduce_entries_cases [OF r] show ?thesis
    proof
      assume "\<exists>f d t. res = [(?nclist, f, d, t)]"
      then show ?thesis using per_face_single by auto
    next
      assume a: "res = (case c of Some x \<Rightarrow> map (\<lambda>(n, r). (x # n, r)) ch_res | None \<Rightarrow> ch_res) @ own \<and>
        \<not> (length (remdups (map (\<lambda>c. fst (snd c))
              ((case c of Some x \<Rightarrow> map (\<lambda>(n, r). (x # n, r)) ch_res | None \<Rightarrow> ch_res) @ own))) = 1 \<and>
           length ((case c of Some x \<Rightarrow> map (\<lambda>(n, r). (x # n, r)) ch_res | None \<Rightarrow> ch_res) @ own) > 1)"
      show ?thesis
      proof (cases c)
        case None
        with o have own: "\<forall>e \<in> set own. fst e = []"
          using own_entries_names by (fastforce split: if_splits)
        from a None have "\<not> (length (remdups (map (\<lambda>c. fst (snd c)) (ch_res @ own))) = 1 \<and>
            length (ch_res @ own) > 1)" by simp
        from per_face_candidates [OF kids own this] a None show ?thesis by simp
      next
        case (Some x)
        with o obtain own0 where own0: "\<forall>e \<in> set own0. fst e = []"
            "own = map (\<lambda>(n, r). (x # n, r)) own0"
        proof (cases "dv = []")
          case True
          with o have "own = []" by simp
          then show ?thesis using that [of "[]"] by simp
        next
          case False
          with o Some have "own_entries sh [x] dv = Inr own" by simp
          from own_entries_prepend [OF this] obtain own0 where
            e: "own_entries sh [] dv = Inr own0" "own = map (\<lambda>(n, r). (x # n, r)) own0" by blast
          with own_entries_names [OF e(1)] show ?thesis using that [of own0] by blast
        qed
        from a Some own0(2) have res: "res = map (\<lambda>(n, r). (x # n, r)) (ch_res @ own0)" by simp
        have "map (\<lambda>c. fst (snd c)) res = map (\<lambda>c. fst (snd c)) (ch_res @ own0)"
          unfolding res by (rule fids_prepend)
        moreover have "length res = length (ch_res @ own0)" unfolding res by simp
        ultimately have "\<not> (length (remdups (map (\<lambda>c. fst (snd c)) (ch_res @ own0))) = 1 \<and>
            length (ch_res @ own0) > 1)"
          using a by metis
        from per_face_prepend [OF per_face_candidates [OF kids own0(1) this], of x]
        show ?thesis unfolding res .
      qed
    qed
  qed
qed

section \<open>The RIB: the claims\<close>

text \<open>
  C1, as stated, fails. After \<open>insert(/a, 1, 1)\<close>, \<open>insert(/a/b, 1, 1)\<close>,
  \<open>insert(/a/c, 2, 1)\<close> the candidates of node \<open>a\<close> carry two face ids, so
  \<open>collapse()\<close> returns all three unchanged: \<open>/a\<close> is a strict prefix of \<open>/a/b\<close>
  and both have face 1.
\<close>

theorem collapse_not_prefix_minimal:
  "fst (rib_inserts (new_rib True)
      [([''a''], 1, 1, None), ([''a'', ''b''], 1, 1, None), ([''a'', ''c''], 2, 1, None)]) = None \<and>
   collapse (tree (snd (rib_inserts (new_rib True)
      [([''a''], 1, 1, None), ([''a'', ''b''], 1, 1, None), ([''a'', ''c''], 2, 1, None)]))) =
     Inr [([''a'', ''b''], 1, 1, None), ([''a'', ''c''], 2, 1, None), ([''a''], 1, 1, None)] \<and>
   \<not> prefix_minimal
     [([''a'', ''b''], 1, 1, None), ([''a'', ''c''], 2, 1, None), ([''a''], 1, 1, None)]"
  by (intro conjI; code_simp)

text \<open>
  C1, amended: for every sequence of insertions into a new RIB (none of which raises) and
  every list \<open>collapse()\<close> then returns, a returned entry's name is a strict prefix of
  another returned entry's name with the same face id only if some returned entry with a
  different face id has a name of which the shorter name is a prefix. In particular, when
  all returned entries carry the same face id, no returned name is a strict prefix of
  another one with the same face (the list has at most one entry).
\<close>

theorem collapse_prefix_minimal_per_face:
  assumes "rib_inserts (new_rib shortest_only) routes = (e, rib)"
    and "collapse (tree rib) = Inr res"
  shows "e = None \<and> prefix_minimal_per_face res \<and>
     ((\<forall>x \<in> set res. \<forall>y \<in> set res. fst (snd x) = fst (snd y)) \<longrightarrow>
        length res \<le> 1 \<and> prefix_minimal res)"
proof -
  from rib_inserts_ok [of "new_rib shortest_only" routes] new_rib_inv [of shortest_only] assms(1)
  have e: "e = None" and inv: "rib_inv (tree rib)" by auto
  have "length res \<le> 1 \<and> prefix_minimal res"
    if "\<forall>x \<in> set res. \<forall>y \<in> set res. fst (snd x) = fst (snd y)"
    using collapse_one_face [OF inv assms(2) that] one_entry_minimal [of res] by blast
  with e collapse_per_face [OF inv assms(2)] show ?thesis by blast
qed

theorem collapse_prefix_minimal_per_face_witness:
  "collapse (tree (snd (rib_inserts (new_rib False)
      [([''a''], 1, 3, Some 7), ([''a'', ''b''], 1, 1, None), ([''a'', ''c''], 2, 2, None)]))) =
     Inr [([''a'', ''b''], 1, 1, None), ([''a'', ''c''], 2, 2, None), ([''a''], 1, 3, Some 7)] \<and>
   prefix_minimal_per_face
     [([''a'', ''b''], 1, 1, None), ([''a'', ''c''], 2, 2, None), ([''a''], 1, 3, Some 7)] \<and>
   collapse (tree (snd (rib_inserts (new_rib False)
      [([''a'', ''b''], 1, 1, None), ([''a'', ''c''], 1, 2, None), ([''a''], 1, 3, Some 7)]))) =
     Inr [([''a''], 1, 1, None)] \<and>
   prefix_minimal [([''a''], 1, 1, None)]"
proof -
  let ?r1 = "[([''a''], 1, 3, Some 7), ([''a'', ''b''], 1, 1, None), ([''a'', ''c''], 2, 2, None)]"
  let ?r2 = "[([''a'', ''b''], 1, 1, None), ([''a'', ''c''], 1, 2, None), ([''a''], 1, 3, Some 7)]"
  have p1: "rib_inserts (new_rib False) ?r1 =
      (fst (rib_inserts (new_rib False) ?r1), snd (rib_inserts (new_rib False) ?r1))"
    by simp
  have c1: "collapse (tree (snd (rib_inserts (new_rib False) ?r1))) =
      Inr [([''a'', ''b''], 1, 1, None), ([''a'', ''c''], 2, 2, None), ([''a''], 1, 3, Some 7)]"
    by code_simp
  have p2: "rib_inserts (new_rib False) ?r2 =
      (fst (rib_inserts (new_rib False) ?r2), snd (rib_inserts (new_rib False) ?r2))"
    by simp
  have c2: "collapse (tree (snd (rib_inserts (new_rib False) ?r2))) = Inr [([''a''], 1, 1, None)]"
    by code_simp
  have f2: "\<forall>x \<in> set [([''a''], 1::int, 1::int, None::datetime option)].
      \<forall>y \<in> set [([''a''], 1::int, 1::int, None::datetime option)]. fst (snd x) = fst (snd y)"
    by simp
  from collapse_prefix_minimal_per_face [OF p1 c1] collapse_prefix_minimal_per_face [OF p2 c2] f2 c1 c2
  show ?thesis by blast
qed

text \<open>
  C2: the code does not do this on every such node. After \<open>insert(/a/b, 1, 1, None)\<close> and
  \<open>insert(/a/c, 1, 1, 5)\<close> the candidates of node \<open>a\<close> are two entries with the one
  face 1 (the collapsed children; the node has no entry of its own), and \<open>min\<close> over
  \<open>[(1, None), (1, 5)]\<close> compares \<open>None\<close> with a \<open>datetime\<close>: \<open>collapse()\<close> raises
  \<open>TypeError\<close>, at the node and so at the root, and emits nothing.
\<close>

theorem collapse_mixed_timeouts_raises:
  "fst (rib_inserts (new_rib True) [([''a'', ''b''], 1, 1, None), ([''a'', ''c''], 1, 1, Some 5)]) = None \<and>
   concat_results (map collapse (children (hd (children (tree (snd (rib_inserts (new_rib True)
      [([''a'', ''b''], 1, 1, None), ([''a'', ''c''], 1, 1, Some 5)]))))))) =
     Inr [([''b''], 1, 1, None), ([''c''], 1, 1, Some 5)] \<and>
   collapse (hd (children (tree (snd (rib_inserts (new_rib True)
      [([''a'', ''b''], 1, 1, None), ([''a'', ''c''], 1, 1, Some 5)]))))) = Inl TypeError \<and>
   collapse (tree (snd (rib_inserts (new_rib True)
      [([''a'', ''b''], 1, 1, None), ([''a'', ''c''], 1, 1, Some 5)]))) = Inl TypeError"
  by (intro conjI; code_simp)

text \<open>The example of C2 itself, with both timeouts left at \<open>None\<close>, is as the claim says.\<close>

lemma collapse_single_face_example:
  "collapse (tree (snd (rib_inserts (new_rib True)
      [([''a'', ''b''], 1, 1, None), ([''a'', ''c''], 1, 1, None)]))) = Inr [([''a''], 1, 1, None)]"
  by code_simp

text \<open>
  What \<open>collapse\<close> does on a node with children whose candidate list has one face id and
  more than one entry: a single tuple under the node's own name, or the exception of \<open>min\<close>.
\<close>

lemma reduce_entries_single_face:
  assumes "length (remdups (map (\<lambda>c. fst (snd c)) cand)) = 1" and "length cand > 1"
  shows "reduce_entries nclist cand =
     (case py_min (map (\<lambda>c. snd (snd c)) (filter (\<lambda>c. fst (snd c) = hd (remdups (map (\<lambda>c. fst (snd c)) cand))) cand)) of
        Inl e \<Rightarrow> Inl e
      | Inr (dist, timeout) \<Rightarrow> Inr [(nclist, hd (remdups (map (\<lambda>c. fst (snd c)) cand)), dist, timeout)])"
  using assms by (simp add: reduce_entries_def Let_def)

text \<open>
  C5: for every RIB tree (every tree with the invariant the class maintains) and every
  \<open>now\<close>, after \<open>ageing(now)\<close> no distance-vector entry anywhere in the tree has a timeout
  \<open>\<le> now\<close>, and no node below the root with an empty distance vector and no children is
  still linked.
\<close>

theorem ageing_removes_outdated_and_empty:
  assumes "rib_inv t"
  shows "no_outdated now (fst (ageing now t)) \<and> no_empty_leaf (fst (ageing now t))"
  using assms ageing_no_outdated ageing_no_empty_leaf by simp

theorem ageing_removes_outdated_and_empty_witness:
  "rib_inv (tree (snd (rib_inserts (new_rib True)
      [([''a''], 1, 1, Some 6), ([''a'', ''b'', ''d''], 1, 1, Some 3), ([''a'', ''c''], 2, 1, Some 5)]))) \<and>
   fst (ageing 5 (tree (snd (rib_inserts (new_rib True)
      [([''a''], 1, 1, Some 6), ([''a'', ''b'', ''d''], 1, 1, Some 3), ([''a'', ''c''], 2, 1, Some 5)])))) =
     RIBTreeNode True False [RIBTreeNode True True [] (Some ''a'') [(1, 1, Some 6)]] None [] \<and>
   no_outdated 5 (fst (ageing 5 (tree (snd (rib_inserts (new_rib True)
      [([''a''], 1, 1, Some 6), ([''a'', ''b'', ''d''], 1, 1, Some 3), ([''a'', ''c''], 2, 1, Some 5)]))))) \<and>
   no_empty_leaf (fst (ageing 5 (tree (snd (rib_inserts (new_rib True)
      [([''a''], 1, 1, Some 6), ([''a'', ''b'', ''d''], 1, 1, Some 3), ([''a'', ''c''], 2, 1, Some 5)])))))"
proof -
  let ?t = "tree (snd (rib_inserts (new_rib True)
      [([''a''], 1, 1, Some 6), ([''a'', ''b'', ''d''], 1, 1, Some 3), ([''a'', ''c''], 2, 1, Some 5)]))"
  have h: "rib_inv ?t" by code_simp
  have v: "fst (ageing 5 ?t) =
     RIBTreeNode True False [RIBTreeNode True True [] (Some ''a'') [(1, 1, Some 6)]] None []"
    by code_simp
  from ageing_removes_outdated_and_empty [OF h, of 5] h v show ?thesis by blast
qed

text \<open>
  C7: \<open>build_fib()\<close> leaves the RIB as it was, so a second call right after the first
  returns the same list of entries in the same order (or raises the same exception).
\<close>

theorem build_fib_twice:
  "snd (build_fib rib) = rib \<and> fst (build_fib (snd (build_fib rib))) = fst (build_fib rib)"
  by (simp add: build_fib_def)

text \<open>
  C9: \<open>insert\<close> on a node that has a parent raises \<open>ValueError\<close> and leaves the node as
  it was; on a node without a parent (the root) it raises nothing.
\<close>

theorem node_insert_root_only:
  "(has_parent n \<longrightarrow> node_insert n name fid distance timeout = (Some ValueError, n)) \<and>
   (\<not> has_parent n \<longrightarrow> fst (node_insert n name fid distance timeout) = None)"
  using insert_descend_no_error [of "collapse_shortest n" n name fid "(distance, timeout)"]
  by (simp add: node_insert_def)

theorem node_insert_root_only_witness:
  "child_get (children (tree (snd (rib_inserts (new_rib True) [([''a''], 1, 1, None)])))) (Some ''a'') =
     Some (RIBTreeNode True True [] (Some ''a'') [(1, 1, None)]) \<and>
   node_insert (RIBTreeNode True True [] (Some ''a'') [(1, 1, None)]) [''x''] 2 1 None =
     (Some ValueError, RIBTreeNode True True [] (Some ''a'') [(1, 1, None)]) \<and>
   fst (node_insert (new_node None True) [''x''] 2 1 None) = None"
proof -
  have c: "child_get (children (tree (snd (rib_inserts (new_rib True) [([''a''], 1, 1, None)])))) (Some ''a'') =
     Some (RIBTreeNode True True [] (Some ''a'') [(1, 1, None)])"
    by code_simp
  have p: "has_parent (RIBTreeNode True True [] (Some ''a'') [(1, 1, None)])" by simp
  have r: "\<not> has_parent (new_node None True)" by (simp add: new_node_def)
  from node_insert_root_only [of "RIBTreeNode True True [] (Some ''a'') [(1, 1, None)]" "[''x'']" 2 1 None] p
    node_insert_root_only [of "new_node None True" "[''x'']" 2 1 None] r c
  show ?thesis by blast
qed

section \<open>The autoconfig server layer: properties\<close>

lemma not_under_autoconfig:
  assumes "\<not> is_prefix_of AUTOCONFIG_PREFIX n"
  shows "AUTOCONFIG_PREFIX \<noteq> n"
    and "\<not> is_prefix_of AUTOCONFIG_SERVICE_LIST_PREFIX n"
    and "\<not> is_prefix_of AUTOCONFIG_SERVICE_REGISTRATION_PREFIX n"
proof -
  show "AUTOCONFIG_PREFIX \<noteq> n"
    using assms is_prefix_of_self_append [of AUTOCONFIG_PREFIX "[]"] by auto
  show "\<not> is_prefix_of AUTOCONFIG_SERVICE_LIST_PREFIX n"
    using assms is_prefix_of_append [of AUTOCONFIG_PREFIX "[''services'']" n]
    by (auto simp: AUTOCONFIG_PREFIX_def AUTOCONFIG_SERVICE_LIST_PREFIX_def)
  show "\<not> is_prefix_of AUTOCONFIG_SERVICE_REGISTRATION_PREFIX n"
    using assms is_prefix_of_append [of AUTOCONFIG_PREFIX "[''service'']" n]
    by (auto simp: AUTOCONFIG_PREFIX_def AUTOCONFIG_SERVICE_REGISTRATION_PREFIX_def)
qed

lemma lines_empty:
  "concat (map (\<lambda>(service, addr, deadline). to_str service @ [newline]) listed) = [] \<longleftrightarrow> listed = []"
  by (cases listed) auto

lemma service_lines_filter:
  "service_lines to_str now srvprefix known =
     concat (map (\<lambda>(service, addr, deadline). to_str service @ [newline])
       (filter (\<lambda>(service, addr, deadline). now \<le> deadline \<and> is_prefix_of srvprefix service) known))"
proof (induction known)
  case Nil
  then show ?case by simp
next
  case (Cons k known)
  obtain service addr deadline where k: "k = (service, addr, deadline)" by (cases k) auto
  have "srvprefix = [] \<Longrightarrow> is_prefix_of srvprefix service" by simp
  with Cons show ?case unfolding k by auto
qed

lemma under_service_list:
  "is_prefix_of AUTOCONFIG_PREFIX (AUTOCONFIG_SERVICE_LIST_PREFIX @ p)"
  "AUTOCONFIG_PREFIX \<noteq> AUTOCONFIG_SERVICE_LIST_PREFIX @ p"
  "\<not> is_prefix_of AUTOCONFIG_SERVICE_REGISTRATION_PREFIX (AUTOCONFIG_SERVICE_LIST_PREFIX @ p)"
  by (simp_all add: is_prefix_of_def AUTOCONFIG_PREFIX_def AUTOCONFIG_SERVICE_LIST_PREFIX_def
      AUTOCONFIG_SERVICE_REGISTRATION_PREFIX_def)

lemma under_service_registration:
  "is_prefix_of AUTOCONFIG_PREFIX (AUTOCONFIG_SERVICE_REGISTRATION_PREFIX @ p)"
  "AUTOCONFIG_PREFIX \<noteq> AUTOCONFIG_SERVICE_REGISTRATION_PREFIX @ p"
  "\<not> is_prefix_of AUTOCONFIG_SERVICE_LIST_PREFIX (AUTOCONFIG_SERVICE_REGISTRATION_PREFIX @ p)"
  by (simp_all add: is_prefix_of_def AUTOCONFIG_PREFIX_def AUTOCONFIG_SERVICE_LIST_PREFIX_def
      AUTOCONFIG_SERVICE_REGISTRATION_PREFIX_def)

lemma renew_duplicate:
  assumes "distinct (map fst known)" and "(srvname, addr, deadline) \<in> set known" and "addr \<noteq> srvaddr"
  shows "renew_known_service known srvname srvaddr d = None"
  using assms
proof (induction known)
  case Nil
  then show ?case by simp
next
  case (Cons k known)
  obtain service a t where k: "k = (service, a, t)" by (cases k) auto
  show ?case
  proof (cases "service = srvname")
    case True
    with Cons.prems k have "a = addr" by (auto simp: rev_image_eqI)
    with True Cons.prems k show ?thesis by simp
  next
    case False
    with Cons k show ?thesis by auto
  qed
qed

lemma no_prefix_filter:
  "length (filter (\<lambda>prefix. length prefix = 0 \<or> is_prefix_of prefix srvname) prefixes) = 0 \<longleftrightarrow>
     \<not> (\<exists>prefix \<in> set prefixes. is_prefix_of prefix srvname)"
proof -
  have "(length prefix = 0 \<or> is_prefix_of prefix srvname) = is_prefix_of prefix srvname" for prefix
    by auto
  then show ?thesis by (simp add: filter_empty_conv)
qed

lemma renew_keeps_names:
  "renew_known_service known srvname srvaddr d = Some known' \<Longrightarrow> map fst known' = map fst known"
proof (induction known arbitrary: known')
  case Nil
  then show ?case by simp
next
  case (Cons k known)
  obtain service a t where k: "k = (service, a, t)" by (cases k) auto
  from Cons show ?case unfolding k by (auto split: if_splits)
qed

lemma registration_keeps_names:
  "map fst (known_services (fst (handle_service_registration env now self interest))) =
     map fst (known_services self)"
  by (auto simp: handle_service_registration_def Let_def renew_keeps_names
      split: sum.splits option.splits prod.splits)

lemma put_reply_keeps_names:
  assumes "\<And>s. map fst (known_services (fst (handler s))) = map fst (known_services s)"
  shows "map fst (known_services (layer (put_reply fid handler out))) =
     map fst (known_services (layer out))"
proof (cases "raised out")
  case (Some e)
  then show ?thesis by (simp add: put_reply_def)
next
  case None
  obtain s r where h: "handler (layer out) = (s, r)" by (cases "handler (layer out)") auto
  with assms [of "layer out"] have "map fst (known_services s) = map fst (known_services (layer out))"
    by simp
  with None h show ?thesis by (cases r) (simp_all add: put_reply_def)
qed

text \<open>
  No call of \<open>data_from_lower\<close> changes which service names are known: the registration
  handler renews the deadline of an entry it finds and never appends one.
\<close>

lemma known_service_names_unchanged:
  "map fst (known_services (layer (data_from_lower env now self item))) =
     map fst (known_services self)"
proof (cases item)
  case Malformed
  then show ?thesis by (simp add: data_from_lower_def)
next
  case (FacePacket fid packet)
  have a: "\<And>s. map fst (known_services (fst (s, handle_autoconfig env s packet))) = map fst (known_services s)"
    by simp
  have b: "\<And>s. map fst (known_services (fst (s, Inr (handle_service_list env now s packet) :: error + packet))) =
      map fst (known_services s)"
    by simp
  note c = registration_keeps_names [of env now _ packet]
  show ?thesis
    unfolding FacePacket
    by (simp add: data_from_lower_def Let_def put_reply_keeps_names [OF a]
        put_reply_keeps_names [OF b] put_reply_keeps_names [OF c])
qed

text \<open>The renewal of a service known at the same address sets its deadline to \<open>now\<close> plus one hour.\<close>

lemma registration_renews_known_service:
  "known_services (layer (data_from_lower sample_collaborators 100
      (sample_layer\<lparr>known_services := [([''testnetwork'', ''repos'', ''r1''], (''127.0.0.1'', 4000), 50)]\<rparr>)
      (FacePacket 3 (Interest
         [''autoconfig'', ''service'', ''127.0.0.1:4000'', ''testnetwork'', ''repos'', ''r1''])))) =
     [([''testnetwork'', ''repos'', ''r1''], (''127.0.0.1'', 4000), 3700)]"
  by code_simp

text \<open>
  Where the component after \<open>/autoconfig/service\<close> parses as \<open>host:port\<close>, the two
  refusals are as the handler's checks read: a service name under no configured
  registration prefix gets Nack(NO_ROUTE); a name under some prefix, with a known service of
  that name (the list being keyed by service name) at another address, gets Nack(DUPLICATE).
  Both Nacks carry the Interest, and the layer (FIB, face table, known services) is
  unchanged.
\<close>

lemma registration_refused:
  assumes "parse_remote env (AUTOCONFIG_SERVICE_REGISTRATION_PREFIX @ remote # srvname) = Inr srvaddr"
  shows "(\<not> (\<exists>prefix \<in> set (service_registration_prefixes self). is_prefix_of prefix srvname) \<longrightarrow>
      data_from_lower env now self
          (FacePacket fid (Interest (AUTOCONFIG_SERVICE_REGISTRATION_PREFIX @ remote # srvname))) =
        \<lparr>layer = self,
         to_lower = [FacePacket fid
           (Nack (AUTOCONFIG_SERVICE_REGISTRATION_PREFIX @ remote # srvname) NO_ROUTE
              (Some (Interest (AUTOCONFIG_SERVICE_REGISTRATION_PREFIX @ remote # srvname))))],
         to_higher = [], raised = None\<rparr>) \<and>
     ((\<exists>prefix \<in> set (service_registration_prefixes self). is_prefix_of prefix srvname) \<and>
      distinct (map fst (known_services self)) \<and>
      (\<exists>addr deadline. (srvname, addr, deadline) \<in> set (known_services self) \<and> addr \<noteq> srvaddr) \<longrightarrow>
      data_from_lower env now self
          (FacePacket fid (Interest (AUTOCONFIG_SERVICE_REGISTRATION_PREFIX @ remote # srvname))) =
        \<lparr>layer = self,
         to_lower = [FacePacket fid
           (Nack (AUTOCONFIG_SERVICE_REGISTRATION_PREFIX @ remote # srvname) DUPLICATE
              (Some (Interest (AUTOCONFIG_SERVICE_REGISTRATION_PREFIX @ remote # srvname))))],
         to_higher = [], raised = None\<rparr>)"
proof -
  let ?n = "AUTOCONFIG_SERVICE_REGISTRATION_PREFIX @ remote # srvname"
  have u: "data_from_lower env now self (FacePacket fid (Interest ?n)) =
      put_reply fid (\<lambda>s. handle_service_registration env now s (Interest ?n))
        \<lparr>layer = self, to_lower = [], to_higher = [], raised = None\<rparr>"
    by (simp add: data_from_lower_def Let_def under_service_registration)
  show ?thesis
  proof (intro conjI impI)
    assume "\<not> (\<exists>prefix \<in> set (service_registration_prefixes self). is_prefix_of prefix srvname)"
    then have "handle_service_registration env now self (Interest ?n) =
        (self, Inr (Nack ?n NO_ROUTE (Some (Interest ?n))))"
      using assms no_prefix_filter [of srvname "service_registration_prefixes self"]
      by (simp add: handle_service_registration_def Let_def)
    then show "data_from_lower env now self (FacePacket fid (Interest ?n)) =
        \<lparr>layer = self, to_lower = [FacePacket fid (Nack ?n NO_ROUTE (Some (Interest ?n)))],
         to_higher = [], raised = None\<rparr>"
      unfolding u by (simp add: put_reply_def)
  next
    assume a: "(\<exists>prefix \<in> set (service_registration_prefixes self). is_prefix_of prefix srvname) \<and>
      distinct (map fst (known_services self)) \<and>
      (\<exists>addr deadline. (srvname, addr, deadline) \<in> set (known_services self) \<and> addr \<noteq> srvaddr)"
    then obtain addr deadline where "(srvname, addr, deadline) \<in> set (known_services self)" "addr \<noteq> srvaddr"
      by blast
    with a have "renew_known_service (known_services self) srvname srvaddr
        (now + service_registration_timeout self) = None"
      by (intro renew_duplicate) auto
    then have "handle_service_registration env now self (Interest ?n) =
        (self, Inr (Nack ?n DUPLICATE (Some (Interest ?n))))"
      using a assms no_prefix_filter [of srvname "service_registration_prefixes self"]
      by (simp add: handle_service_registration_def Let_def)
    then show "data_from_lower env now self (FacePacket fid (Interest ?n)) =
        \<lparr>layer = self, to_lower = [FacePacket fid (Nack ?n DUPLICATE (Some (Interest ?n)))],
         to_higher = [], raised = None\<rparr>"
      unfolding u by (simp add: put_reply_def)
  qed
qed

lemma registration_refused_example:
  "parse_remote sample_collaborators
       (AUTOCONFIG_SERVICE_REGISTRATION_PREFIX @ ''127.0.0.1:4001'' # [''testnetwork'', ''repos'', ''r1'']) =
     Inr (''127.0.0.1'', 4001) \<and>
   data_from_lower sample_collaborators 100 (sample_layer\<lparr>service_registration_prefixes := [[''lab'']]\<rparr>)
       (FacePacket 3 (Interest
          (AUTOCONFIG_SERVICE_REGISTRATION_PREFIX @ ''127.0.0.1:4001'' # [''testnetwork'', ''repos'', ''r1'']))) =
     \<lparr>layer = sample_layer\<lparr>service_registration_prefixes := [[''lab'']]\<rparr>,
      to_lower = [FacePacket 3
        (Nack (AUTOCONFIG_SERVICE_REGISTRATION_PREFIX @ ''127.0.0.1:4001'' # [''testnetwork'', ''repos'', ''r1''])
           NO_ROUTE
           (Some (Interest
              (AUTOCONFIG_SERVICE_REGISTRATION_PREFIX @ ''127.0.0.1:4001'' # [''testnetwork'', ''repos'', ''r1'']))))],
      to_higher = [], raised = None\<rparr> \<and>
   data_from_lower sample_collaborators 100
       (sample_layer\<lparr>known_services := [([''testnetwork'', ''repos'', ''r1''], (''127.0.0.1'', 4000), 50)]\<rparr>)
       (FacePacket 3 (Interest
          (AUTOCONFIG_SERVICE_REGISTRATION_PREFIX @ ''127.0.0.1:4001'' # [''testnetwork'', ''repos'', ''r1'']))) =
     \<lparr>layer = sample_layer\<lparr>known_services := [([''testnetwork'', ''repos'', ''r1''], (''127.0.0.1'', 4000), 50)]\<rparr>,
      to_lower = [FacePacket 3
        (Nack (AUTOCONFIG_SERVICE_REGISTRATION_PREFIX @ ''127.0.0.1:4001'' # [''testnetwork'', ''repos'', ''r1''])
           DUPLICATE
           (Some (Interest
              (AUTOCONFIG_SERVICE_REGISTRATION_PREFIX @ ''127.0.0.1:4001'' # [''testnetwork'', ''repos'', ''r1'']))))],
      to_higher = [], raised = None\<rparr>"
proof -
  let ?srvname = "[''testnetwork'', ''repos'', ''r1'']"
  let ?n = "AUTOCONFIG_SERVICE_REGISTRATION_PREFIX @ ''127.0.0.1:4001'' # ?srvname"
  let ?s1 = "sample_layer\<lparr>service_registration_prefixes := [[''lab'']]\<rparr>"
  let ?s2 = "sample_layer\<lparr>known_services := [(?srvname, (''127.0.0.1'', 4000), 50)]\<rparr>"
  have h: "parse_remote sample_collaborators ?n = Inr (''127.0.0.1'', 4001)"
    by code_simp
  have n1: "\<not> (\<exists>prefix \<in> set (service_registration_prefixes ?s1). is_prefix_of prefix ?srvname)"
    by (simp add: is_prefix_of_def)
  have n2: "(\<exists>prefix \<in> set (service_registration_prefixes ?s2). is_prefix_of prefix ?srvname) \<and>
      distinct (map fst (known_services ?s2)) \<and>
      (\<exists>addr deadline. (?srvname, addr, deadline) \<in> set (known_services ?s2) \<and> addr \<noteq> (''127.0.0.1'', 4001))"
    by (simp add: is_prefix_of_def sample_layer_def new_layer_def)
  from registration_refused [OF h, of ?s1 100 3] n1 registration_refused [OF h, of ?s2 100 3] n2 h
  show ?thesis by blast
qed

text \<open>
  Where it does not parse, the handler raises before any check: nothing is put on a queue.
  The remote \<open>udp4://127.0.1.1:1337\<close> has two colons, so \<open>host, port = remote.split(':')\<close>
  raises \<open>ValueError\<close>, whatever \<open>int()\<close> and the other collaborators do; a name that ends
  with the prefix has no component to index, and \<open>interest.name[2]\<close> raises \<open>IndexError\<close>.
\<close>

lemma parse_remote_scheme_raises:
  "parse_remote env ([''autoconfig'', ''service'', ''udp4://127.0.1.1:1337''] @ srvname) = Inl ValueError"
  by (simp add: parse_remote_def AUTOCONFIG_SERVICE_REGISTRATION_PREFIX_def decode_ascii_def)

lemma registration_remote_with_scheme_raises:
  "data_from_lower env now self
       (FacePacket fid (Interest ([''autoconfig'', ''service'', ''udp4://127.0.1.1:1337''] @ srvname))) =
     \<lparr>layer = self, to_lower = [], to_higher = [], raised = Some ValueError\<rparr>"
  using parse_remote_scheme_raises [of env srvname]
  by (simp add: data_from_lower_def put_reply_def handle_service_registration_def Let_def
      is_prefix_of_def AUTOCONFIG_PREFIX_def AUTOCONFIG_SERVICE_LIST_PREFIX_def
      AUTOCONFIG_SERVICE_REGISTRATION_PREFIX_def)

lemma registration_without_remote_raises:
  "data_from_lower env now self (FacePacket fid (Interest [''autoconfig'', ''service''])) =
     \<lparr>layer = self, to_lower = [], to_higher = [], raised = Some IndexError\<rparr>"
  by (simp add: data_from_lower_def put_reply_def handle_service_registration_def Let_def
      parse_remote_def is_prefix_of_def AUTOCONFIG_PREFIX_def AUTOCONFIG_SERVICE_LIST_PREFIX_def
      AUTOCONFIG_SERVICE_REGISTRATION_PREFIX_def)

text \<open>A layer that starts without known services never has one.\<close>

lemma known_services_stay_empty:
  "known_services self = [] \<Longrightarrow> known_services (layer (data_from_lower env now self item)) = []"
  using known_service_names_unchanged [of env now self item] by simp

section \<open>The autoconfig server layer: the claims\<close>

text \<open>
  C3: the code does not do all of this. With \<open>/testnetwork/repos\<close> the configured prefix
  and no known service, the Interest
  \<open>/autoconfig/service/127.0.0.1:4000/testnetwork/repos/r1\<close> gets its face, its static
  FIB entry and the empty Content, but no known-service entry is made: the list is empty
  before and after.
\<close>

theorem registration_of_new_service_not_recorded:
  "to_lower (data_from_lower sample_collaborators 100 sample_layer
      (FacePacket 3 (Interest
         [''autoconfig'', ''service'', ''127.0.0.1:4000'', ''testnetwork'', ''repos'', ''r1'']))) =
     [FacePacket 3 (Content
         [''autoconfig'', ''service'', ''127.0.0.1:4000'', ''testnetwork'', ''repos'', ''r1''] None)] \<and>
   fib (layer (data_from_lower sample_collaborators 100 sample_layer
      (FacePacket 3 (Interest
         [''autoconfig'', ''service'', ''127.0.0.1:4000'', ''testnetwork'', ''repos'', ''r1''])))) =
     Some [\<lparr>fib_name = [''testnetwork'', ''repos'', ''r1''], fib_faceid = 0, fib_static = True\<rparr>] \<and>
   known_services sample_layer = [] \<and>
   known_services (layer (data_from_lower sample_collaborators 100 sample_layer
      (FacePacket 3 (Interest
         [''autoconfig'', ''service'', ''127.0.0.1:4000'', ''testnetwork'', ''repos'', ''r1''])))) = []"
  by (intro conjI; code_simp)

text \<open>
  C4: the code does not do this for every service-registration Interest. The Interest
  \<open>/autoconfig/service/udp4://127.0.1.1:1337/test/testrepo\<close> (the registration name the
  repository side sends) names a service under no configured registration prefix of a layer
  configured with \<open>/testnetwork/repos\<close>, yet no Nack(NO_ROUTE) is sent: line 115 raises
  \<open>ValueError\<close> before the prefix check, and both queues stay empty.
\<close>

theorem registration_unparsed_remote_raises:
  "filter (\<lambda>prefix. is_prefix_of prefix [''test'', ''testrepo''])
       (service_registration_prefixes sample_layer) = [] \<and>
   data_from_lower sample_collaborators 100 sample_layer
       (FacePacket 42 (Interest
          [''autoconfig'', ''service'', ''udp4://127.0.1.1:1337'', ''test'', ''testrepo''])) =
     \<lparr>layer = sample_layer, to_lower = [], to_higher = [], raised = Some ValueError\<rparr>"
proof (intro conjI)
  show "filter (\<lambda>prefix. is_prefix_of prefix [''test'', ''testrepo''])
       (service_registration_prefixes sample_layer) = []"
    by (simp add: sample_layer_def new_layer_def)
  show "data_from_lower sample_collaborators 100 sample_layer
       (FacePacket 42 (Interest
          [''autoconfig'', ''service'', ''udp4://127.0.1.1:1337'', ''test'', ''testrepo''])) =
     \<lparr>layer = sample_layer, to_lower = [], to_higher = [], raised = Some ValueError\<rparr>"
    using registration_remote_with_scheme_raises
      [of sample_collaborators 100 sample_layer 42 "[''test'', ''testrepo'']"]
    by simp
qed

text \<open>
  C6: a well-formed \<open>[face id, packet]\<close> from below whose name is not under
  \<open>/autoconfig\<close> is put, as it is, on the higher queue when \<open>interest_to_app\<close> is set and
  on the lower queue otherwise; nothing else is put on either queue, no handler runs and the
  layer is unchanged. (None of the three Interest branches can match: each of their names
  has \<open>/autoconfig\<close> as a prefix.)
\<close>

theorem pass_through:
  assumes "\<not> is_prefix_of AUTOCONFIG_PREFIX (packet_name packet)"
  shows "data_from_lower env now self (FacePacket fid packet) =
     \<lparr>layer = self,
      to_lower = (if interest_to_app self then [] else [FacePacket fid packet]),
      to_higher = (if interest_to_app self then [FacePacket fid packet] else []),
      raised = None\<rparr>"
  using assms not_under_autoconfig [OF assms]
  by (simp add: data_from_lower_def Let_def)

theorem pass_through_witness:
  "\<not> is_prefix_of AUTOCONFIG_PREFIX (packet_name (Interest [''foo'', ''bar''])) \<and>
   data_from_lower sample_collaborators 100 (sample_layer\<lparr>interest_to_app := True\<rparr>)
       (FacePacket 42 (Interest [''foo'', ''bar''])) =
     \<lparr>layer = sample_layer\<lparr>interest_to_app := True\<rparr>, to_lower = [],
      to_higher = [FacePacket 42 (Interest [''foo'', ''bar''])], raised = None\<rparr> \<and>
   data_from_lower sample_collaborators 100 sample_layer
       (FacePacket 42 (Interest [''foo'', ''bar''])) =
     \<lparr>layer = sample_layer, to_lower = [FacePacket 42 (Interest [''foo'', ''bar''])],
      to_higher = [], raised = None\<rparr>"
proof -
  have h: "\<not> is_prefix_of AUTOCONFIG_PREFIX (packet_name (Interest [''foo'', ''bar'']))"
    by (simp add: is_prefix_of_def AUTOCONFIG_PREFIX_def)
  have t: "interest_to_app (sample_layer\<lparr>interest_to_app := True\<rparr>)" by simp
  have f: "\<not> interest_to_app sample_layer" by (simp add: sample_layer_def new_layer_def)
  from pass_through [OF h, of sample_collaborators 100 "sample_layer\<lparr>interest_to_app := True\<rparr>" 42]
    pass_through [OF h, of sample_collaborators 100 sample_layer 42] h t f
  show ?thesis by simp
qed

text \<open>
  C8: an Interest for \<open>/autoconfig/services/<prefix>\<close> is answered on the lower queue, to
  the face it came from, with a Content whose payload has one line per known service whose
  deadline has not passed (\<open>now \<le> deadline\<close>) and whose name has \<open><prefix>\<close> as a prefix
  (every such service when \<open><prefix>\<close> is empty), in the order of the list; with
  Nack(NO_CONTENT) when there is no such service. The layer is unchanged.
\<close>

theorem service_list_reply:
  "data_from_lower env now self
       (FacePacket fid (Interest (AUTOCONFIG_SERVICE_LIST_PREFIX @ srvprefix))) =
     \<lparr>layer = self,
      to_lower =
        [FacePacket fid
           (let listed = filter (\<lambda>(service, addr, deadline).
                    now \<le> deadline \<and> is_prefix_of srvprefix service) (known_services self)
            in if listed = []
               then Nack (AUTOCONFIG_SERVICE_LIST_PREFIX @ srvprefix) NO_CONTENT None
               else Content (AUTOCONFIG_SERVICE_LIST_PREFIX @ srvprefix)
                      (Some (encode_utf8 (concat (map (\<lambda>(service, addr, deadline).
                          to_string env service @ [newline]) listed)))))],
      to_higher = [],
      raised = None\<rparr>"
proof -
  let ?n = "AUTOCONFIG_SERVICE_LIST_PREFIX @ srvprefix"
  let ?listed = "filter (\<lambda>(service, addr, deadline).
      now \<le> deadline \<and> is_prefix_of srvprefix service) (known_services self)"
  have h: "handle_service_list env now self (Interest ?n) =
      (if ?listed = [] then Nack ?n NO_CONTENT None
       else Content ?n (Some (encode_utf8 (concat (map (\<lambda>(service, addr, deadline).
              to_string env service @ [newline]) ?listed)))))"
    unfolding handle_service_list_def Let_def service_lines_filter length_greater_0_conv lines_empty
    by simp
  have "data_from_lower env now self (FacePacket fid (Interest ?n)) =
      \<lparr>layer = self, to_lower = [FacePacket fid (handle_service_list env now self (Interest ?n))],
       to_higher = [], raised = None\<rparr>"
    by (simp add: data_from_lower_def put_reply_def Let_def under_service_list)
  then show ?thesis
    unfolding h Let_def .
qed

theorem service_list_reply_witness:
  "data_from_lower sample_collaborators 100
       (sample_layer\<lparr>known_services :=
          [([''testnetwork'', ''repos'', ''r1''], (''127.0.0.1'', 4000), 50),
           ([''testnetwork'', ''repos'', ''r2''], (''127.0.0.1'', 4001), 150),
           ([''other'', ''r3''], (''127.0.0.1'', 4002), 100)]\<rparr>)
       (FacePacket 3 (Interest (AUTOCONFIG_SERVICE_LIST_PREFIX @ [''testnetwork'']))) =
     \<lparr>layer = sample_layer\<lparr>known_services :=
          [([''testnetwork'', ''repos'', ''r1''], (''127.0.0.1'', 4000), 50),
           ([''testnetwork'', ''repos'', ''r2''], (''127.0.0.1'', 4001), 150),
           ([''other'', ''r3''], (''127.0.0.1'', 4002), 100)]\<rparr>,
      to_lower = [FacePacket 3 (Content (AUTOCONFIG_SERVICE_LIST_PREFIX @ [''testnetwork''])
         (Some (''/testnetwork/repos/r2'' @ [newline])))],
      to_higher = [], raised = None\<rparr> \<and>
   data_from_lower sample_collaborators 100 sample_layer
       (FacePacket 3 (Interest (AUTOCONFIG_SERVICE_LIST_PREFIX @ []))) =
     \<lparr>layer = sample_layer,
      to_lower = [FacePacket 3 (Nack (AUTOCONFIG_SERVICE_LIST_PREFIX @ []) NO_CONTENT None)],
      to_higher = [], raised = None\<rparr>"
proof -
  let ?self = "sample_layer\<lparr>known_services :=
          [([''testnetwork'', ''repos'', ''r1''], (''127.0.0.1'', 4000), 50),
           ([''testnetwork'', ''repos'', ''r2''], (''127.0.0.1'', 4001), 150),
           ([''other'', ''r3''], (''127.0.0.1'', 4002), 100)]\<rparr>"
  have k: "known_services sample_layer = []" by (simp add: sample_layer_def new_layer_def)
  have s: "to_string sample_collaborators [''testnetwork'', ''repos'', ''r2''] = ''/testnetwork/repos/r2''"
    by (simp add: sample_collaborators_def sample_to_string_def)
  show ?thesis
    using service_list_reply [of sample_collaborators 100 ?self 3 "[''testnetwork'']"]
      service_list_reply [of sample_collaborators 100 sample_layer 3 "[]"] k s
    by (simp add: is_prefix_of_def encode_utf8_def)
qed

text \<open>
  C10: a Content or a Nack from below whose name is under \<open>/autoconfig\<close> puts nothing on
  either queue and leaves the layer (FIB, face table and known services with it) unchanged.
\<close>

theorem autoconfig_content_or_nack_consumed:
  assumes "is_prefix_of AUTOCONFIG_PREFIX n"
  shows "data_from_lower env now self (FacePacket fid (Content n payload)) =
           \<lparr>layer = self, to_lower = [], to_higher = [], raised = None\<rparr> \<and>
         data_from_lower env now self (FacePacket fid (Nack n reason interest)) =
           \<lparr>layer = self, to_lower = [], to_higher = [], raised = None\<rparr>"
  using assms by (simp add: data_from_lower_def Let_def)

theorem autoconfig_content_or_nack_consumed_witness:
  "is_prefix_of AUTOCONFIG_PREFIX [''autoconfig'', ''forwarders''] \<and>
   data_from_lower sample_collaborators 100 sample_layer
       (FacePacket 42 (Content [''autoconfig'', ''forwarders''] (Some ''udp4://127.0.0.1:9000''))) =
     \<lparr>layer = sample_layer, to_lower = [], to_higher = [], raised = None\<rparr> \<and>
   data_from_lower sample_collaborators 100 sample_layer
       (FacePacket 42 (Nack [''autoconfig'', ''forwarders''] NO_ROUTE None)) =
     \<lparr>layer = sample_layer, to_lower = [], to_higher = [], raised = None\<rparr>"
proof -
  have h: "is_prefix_of AUTOCONFIG_PREFIX [''autoconfig'', ''forwarders'']"
    by (simp add: is_prefix_of_def AUTOCONFIG_PREFIX_def)
  from autoconfig_content_or_nack_consumed [OF h, of sample_collaborators 100 sample_layer 42
      "Some ''udp4://127.0.0.1:9000''" NO_ROUTE None] h
  show ?thesis by simp
qed

end
